theory Spec2Isabelle
  imports Complex_Main "HOL-Library.Sublist"
begin

section \<open>The SVG backend of gg-svg (backend.go)\<close>

text \<open>
  The backend turns drawing commands into SVG markup. It owns two
  \<^verbatim>\<open>strings.Builder\<close> buffers (content and definitions), a counter for
  resource ids, a stack of saved graphics states and the current state.

  Modelling decisions, all of them about what lies outside backend.go:
  \<^item> \<^verbatim>\<open>float64\<close> is a type parameter \<open>'f\<close>. The floating-point primitives the
    source uses (the \<^verbatim>\<open>%g\<close> verb of \<^verbatim>\<open>fmt.Sprintf\<close>, comparison, arithmetic,
    \<^verbatim>\<open>math.Sqrt\<close>, the conversion \<^verbatim>\<open>int(x)\<close>, numeric literals) and the
    library calls whose bodies are in other packages (\<^verbatim>\<open>IsIdentity\<close>,
    \<^verbatim>\<open>png.Encode\<close>, the base64 encoding) are the fields
    of a record \<open>lib\<close> passed to every function that needs them, so every
    theorem holds for whatever these primitives compute.
  \<^item> Go's \<^verbatim>\<open>int\<close> is \<open>int\<close> with the 64-bit wrap-around written out
    (\<open>wrap_int\<close>) at each increment and decrement.
  \<^item> A \<^verbatim>\<open>strings.Builder\<close> is the list of the chunks handed to
    \<^verbatim>\<open>WriteString\<close>, in order; \<^verbatim>\<open>String()\<close> is their concatenation.
  \<^item> The types of the packages gg and recording (points, colours, path
    elements, brushes, strokes, matrices, rectangles) are modelled with the
    fields and variants the source reads. A pointer that the source tests
    against \<^verbatim>\<open>nil\<close> is an \<open>option\<close>; brush pointers are taken to be non-nil.
\<close>

subsection \<open>Integers and their decimal form\<close>

definition max_int :: int where
  "max_int = 2 ^ 63 - 1"

definition wrap_int :: "int \<Rightarrow> int" where
  "wrap_int x = (x + 2 ^ 63) mod 2 ^ 64 - 2 ^ 63"

definition digit_char :: "nat \<Rightarrow> char" where
  "digit_char d =
     (if d = 0 then CHR ''0'' else if d = 1 then CHR ''1''
      else if d = 2 then CHR ''2'' else if d = 3 then CHR ''3''
      else if d = 4 then CHR ''4'' else if d = 5 then CHR ''5''
      else if d = 6 then CHR ''6'' else if d = 7 then CHR ''7''
      else if d = 8 then CHR ''8'' else CHR ''9'')"

fun dec_nat :: "nat \<Rightarrow> string" where
  "dec_nat n = (if n < 10 then [digit_char n]
                else dec_nat (n div 10) @ [digit_char (n mod 10)])"

declare dec_nat.simps [simp del]

text \<open>\<^verbatim>\<open>fmt.Sprintf("%d", i)\<close>.\<close>

definition fmt_d :: "int \<Rightarrow> string" where
  "fmt_d i = (if i < 0 then CHR ''-'' # dec_nat (nat (- i)) else dec_nat (nat i))"

subsection \<open>Library primitives taken as parameters\<close>

text \<open>\<^verbatim>\<open>recording.Matrix\<close>, with the fields \<^verbatim>\<open>A\<close> to \<^verbatim>\<open>F\<close> as \<open>mA\<close> to \<open>mF\<close>.\<close>

record 'f Matrix =
  mA :: 'f
  mB :: 'f
  mC :: 'f
  mD :: 'f
  mE :: 'f
  mF :: 'f

record ('f, 'i) lib =
  fmt_g :: "'f \<Rightarrow> string"
  f_lt :: "'f \<Rightarrow> 'f \<Rightarrow> bool"
  f_le :: "'f \<Rightarrow> 'f \<Rightarrow> bool"
  f_eq :: "'f \<Rightarrow> 'f \<Rightarrow> bool"
  f_add :: "'f \<Rightarrow> 'f \<Rightarrow> 'f"
  f_sub :: "'f \<Rightarrow> 'f \<Rightarrow> 'f"
  f_mul :: "'f \<Rightarrow> 'f \<Rightarrow> 'f"
  f_sqrt :: "'f \<Rightarrow> 'f"
  f_lit :: "int \<Rightarrow> 'f"
  f_int :: "'f \<Rightarrow> int"
  IsIdentity :: "'f Matrix \<Rightarrow> bool"
  png_Encode :: "'i \<Rightarrow> string option"
  base64_EncodeToString :: "string \<Rightarrow> string"

text \<open>
  \<open>fmt_g\<close> is \<^verbatim>\<open>fmt.Sprintf("%g", x)\<close>; \<open>f_lt\<close>, \<open>f_le\<close>, \<open>f_eq\<close> are
  \<^verbatim>\<open><\<close>, \<^verbatim>\<open><=\<close>, \<^verbatim>\<open>==\<close> on \<^verbatim>\<open>float64\<close>; \<open>f_lit n\<close> is the constant \<open>n\<close>
  as a \<^verbatim>\<open>float64\<close>; \<open>f_int\<close> is the conversion \<^verbatim>\<open>int(x)\<close>; \<open>png_Encode\<close>
  is \<^verbatim>\<open>png.Encode\<close> into a fresh buffer (\<open>None\<close> when it returns an error).
  \<open>IsIdentity\<close> is the method \<^verbatim>\<open>IsIdentity()\<close> of \<^verbatim>\<open>recording.Matrix\<close>, whose body
  is in package gg: which matrices it accepts (the identity alone, or those
  close to it) is left open.
\<close>

subsection \<open>Geometry and paint (packages gg and recording)\<close>

record 'f Point =
  pX :: 'f
  pY :: 'f

datatype 'f PathElement =
    MoveTo "'f Point"
  | LineTo "'f Point"
  | QuadTo "'f Point" "'f Point"
  | CubicTo "'f Point" "'f Point" "'f Point"
  | Close
  | OtherElement

text \<open>
  \<open>QuadTo c p\<close> has \<^verbatim>\<open>Control\<close> \<open>c\<close> and \<^verbatim>\<open>Point\<close> \<open>p\<close>; \<open>CubicTo c1 c2 p\<close>
  has \<^verbatim>\<open>Control1\<close>, \<^verbatim>\<open>Control2\<close>, \<^verbatim>\<open>Point\<close>. \<open>OtherElement\<close> stands for any
  value of the interface \<^verbatim>\<open>gg.PathElement\<close> whose dynamic type is none of
  the five named in the type switch of \<^verbatim>\<open>pathToD\<close> (a nil interface value
  included).
\<close>

type_synonym 'f Path = "'f PathElement list"

subsection \<open>The path-data encoder\<close>

text \<open>
  One iteration of the loop of \<^verbatim>\<open>pathToD\<close>: the text written to the local
  builder \<^verbatim>\<open>d\<close> for one element. The type switch has no default branch.
\<close>

fun pathToD_elem :: "('f, 'i) lib \<Rightarrow> 'f PathElement \<Rightarrow> string" where
  "pathToD_elem l (MoveTo p) = ''M'' @ fmt_g l (pX p) @ '' '' @ fmt_g l (pY p)"
| "pathToD_elem l (LineTo p) = ''L'' @ fmt_g l (pX p) @ '' '' @ fmt_g l (pY p)"
| "pathToD_elem l (QuadTo c p) =
     ''Q'' @ fmt_g l (pX c) @ '' '' @ fmt_g l (pY c) @ '' ''
       @ fmt_g l (pX p) @ '' '' @ fmt_g l (pY p)"
| "pathToD_elem l (CubicTo c1 c2 p) =
     ''C'' @ fmt_g l (pX c1) @ '' '' @ fmt_g l (pY c1) @ '' ''
       @ fmt_g l (pX c2) @ '' '' @ fmt_g l (pY c2) @ '' ''
       @ fmt_g l (pX p) @ '' '' @ fmt_g l (pY p)"
| "pathToD_elem l Close = ''Z''"
| "pathToD_elem l OtherElement = ''''"

fun pathToD :: "('f, 'i) lib \<Rightarrow> 'f Path \<Rightarrow> string" where
  "pathToD l [] = ''''"
| "pathToD l (e # es) = pathToD_elem l e @ pathToD l es"

text \<open>The five kinds of the type switch.\<close>

fun recognized :: "'f PathElement \<Rightarrow> bool" where
  "recognized OtherElement = False"
| "recognized _ = True"

subsection \<open>Colours, brushes, strokes, matrices, rectangles\<close>

text \<open>
  Field names carry a prefix where Go reuses a name: \<open>cR\<close>, \<open>cG\<close>, \<open>cB\<close>, \<open>cA\<close>
  are the fields \<^verbatim>\<open>R\<close>, \<^verbatim>\<open>G\<close>, \<^verbatim>\<open>B\<close>, \<^verbatim>\<open>A\<close> of \<^verbatim>\<open>gg.RGBA\<close>; \<open>pX\<close>, \<open>pY\<close> those of a
  point; \<open>mA\<close> to \<open>mF\<close> those of \<^verbatim>\<open>recording.Matrix\<close>; \<open>lg\<close>, \<open>rg\<close>, \<open>sw\<close> and \<open>s\<close>
  mark the fields of the linear, radial and sweep brushes and of the stroke.
\<close>

record 'f RGBA =
  cR :: 'f
  cG :: 'f
  cB :: 'f
  cA :: 'f

record 'f ColorStop =
  Offset :: 'f
  Color :: "'f RGBA"

text \<open>
  The switches on the spread mode name \<^verbatim>\<open>ExtendRepeat\<close> and \<^verbatim>\<open>ExtendReflect\<close>
  and have no default branch: \<open>ExtendPad\<close> stands for every other mode.
\<close>

datatype ExtendMode = ExtendPad | ExtendRepeat | ExtendReflect

record 'f LinearGradientBrush =
  lgStart :: "'f Point"
  lgEnd :: "'f Point"
  lgStops :: "'f ColorStop list"
  lgExtend :: ExtendMode

record 'f RadialGradientBrush =
  rgCenter :: "'f Point"
  rgFocus :: "'f Point"
  rgEndRadius :: 'f
  rgStops :: "'f ColorStop list"
  rgExtend :: ExtendMode

record 'f SweepGradientBrush =
  swStops :: "'f ColorStop list"

text \<open>
  The interface \<^verbatim>\<open>recording.Brush\<close>. \<open>BrOther\<close> is a brush of any other
  dynamic type (the \<^verbatim>\<open>default\<close> branch of the type switches).
\<close>

datatype 'f Brush =
    BrSolid "'f RGBA"
  | BrLinear "'f LinearGradientBrush"
  | BrRadial "'f RadialGradientBrush"
  | BrSweep "'f SweepGradientBrush"
  | BrOther

text \<open>
  \<open>LineCapButt\<close> and \<open>LineJoinMiter\<close> stand for the values that reach the default
  branches of the switches on cap and join; \<open>FillRuleNonZero\<close> for every fill
  rule other than even-odd.
\<close>

datatype LineCap = LineCapButt | LineCapRound | LineCapSquare

datatype LineJoin = LineJoinMiter | LineJoinRound | LineJoinBevel

record 'f Stroke =
  sWidth :: 'f
  sCap :: LineCap
  sJoin :: LineJoin
  sMiterLimit :: 'f
  sDashPattern :: "'f list"
  sDashOffset :: 'f

datatype FillRule = FillRuleNonZero | FillRuleEvenOdd

text \<open>\<^verbatim>\<open>recording.Identity()\<close>: the identity matrix.\<close>

definition Identity :: "('f, 'i) lib \<Rightarrow> 'f Matrix" where
  "Identity l = \<lparr>mA = f_lit l 1, mB = f_lit l 0, mC = f_lit l 0,
                  mD = f_lit l 0, mE = f_lit l 1, mF = f_lit l 0\<rparr>"

record 'f Rect =
  MinX :: 'f
  MinY :: 'f
  MaxX :: 'f
  MaxY :: 'f

text \<open>The methods \<^verbatim>\<open>Width()\<close> and \<^verbatim>\<open>Height()\<close>: the differences of the bounds.\<close>

definition Rect_Width :: "('f, 'i) lib \<Rightarrow> 'f Rect \<Rightarrow> 'f" where
  "Rect_Width l r = f_sub l (MaxX r) (MinX r)"

definition Rect_Height :: "('f, 'i) lib \<Rightarrow> 'f Rect \<Rightarrow> 'f" where
  "Rect_Height l r = f_sub l (MaxY r) (MinY r)"

text \<open>
  A \<^verbatim>\<open>text.Face\<close>, as far as \<^verbatim>\<open>DrawText\<close> looks at it: \<^verbatim>\<open>Size()\<close> and
  \<^verbatim>\<open>Metrics().LineHeight()\<close>.
\<close>

record 'f Face =
  face_Size :: 'f
  face_LineHeight :: 'f

record 'f ImageOptions =
  opt_Alpha :: 'f

subsection \<open>The backend\<close>

record 'f backendState =
  transform :: "'f Matrix"
  clipID :: string

record 'f Backend =
  width :: int
  height :: int
  builder :: "string list"
  defs :: "string list"
  groupDepth :: int
  idCounter :: int
  stateStack :: "'f backendState list"
  currentTransform :: "'f Matrix"
  currentClipID :: string

text \<open>\<^verbatim>\<open>b.builder.WriteString(s)\<close>, \<^verbatim>\<open>b.defs.WriteString(s)\<close> and \<^verbatim>\<open>String()\<close>.\<close>

definition builder_WriteString :: "string \<Rightarrow> 'f Backend \<Rightarrow> 'f Backend" where
  "builder_WriteString s b = b\<lparr>builder := builder b @ [s]\<rparr>"

definition defs_WriteString :: "string \<Rightarrow> 'f Backend \<Rightarrow> 'f Backend" where
  "defs_WriteString s b = b\<lparr>defs := defs b @ [s]\<rparr>"

definition String :: "string list \<Rightarrow> string" where
  "String chunks = concat chunks"

text \<open>
  \<^verbatim>\<open>NewBackend\<close>: every field has its zero value (the matrix is all zeros,
  not the identity).
\<close>

definition NewBackend :: "('f, 'i) lib \<Rightarrow> 'f Backend" where
  "NewBackend l =
     \<lparr>width = 0, height = 0, builder = [], defs = [], groupDepth = 0, idCounter = 0,
      stateStack = [],
      currentTransform = \<lparr>mA = f_lit l 0, mB = f_lit l 0, mC = f_lit l 0,
                          mD = f_lit l 0, mE = f_lit l 0, mF = f_lit l 0\<rparr>,
      currentClipID = ''''\<rparr>"

text \<open>\<^verbatim>\<open>Begin\<close> always returns a nil error; the model returns the new state.\<close>

definition Begin :: "('f, 'i) lib \<Rightarrow> int \<Rightarrow> int \<Rightarrow> 'f Backend \<Rightarrow> 'f Backend" where
  "Begin l w h b =
     b\<lparr>width := w, height := h, builder := [], defs := [], groupDepth := 0,
       idCounter := 0, stateStack := [], currentTransform := Identity l,
       currentClipID := ''''\<rparr>"

definition End :: "'f Backend \<Rightarrow> 'f Backend" where
  "End b = b"

definition Save :: "'f Backend \<Rightarrow> 'f Backend" where
  "Save b =
     (let b1 = b\<lparr>stateStack := stateStack b @
                   [\<lparr>transform = currentTransform b, clipID = currentClipID b\<rparr>]\<rparr>;
          b2 = builder_WriteString ''<g>'' b1
      in b2\<lparr>groupDepth := wrap_int (groupDepth b2 + 1)\<rparr>)"

definition Restore :: "'f Backend \<Rightarrow> 'f Backend" where
  "Restore b =
     (if length (stateStack b) = 0 then b
      else
        let state = last (stateStack b);
            b1 = b\<lparr>stateStack := butlast (stateStack b)\<rparr>;
            b2 = b1\<lparr>currentTransform := transform state\<rparr>;
            b3 = b2\<lparr>currentClipID := clipID state\<rparr>
        in if 0 < groupDepth b3
           then (let b4 = builder_WriteString ''</g>'' b3
                 in b4\<lparr>groupDepth := wrap_int (groupDepth b4 - 1)\<rparr>)
           else b3)"

definition SetTransform :: "'f Matrix \<Rightarrow> 'f Backend \<Rightarrow> 'f Backend" where
  "SetTransform m b = b\<lparr>currentTransform := m\<rparr>"

definition ClearClip :: "'f Backend \<Rightarrow> 'f Backend" where
  "ClearClip b = b\<lparr>currentClipID := ''''\<rparr>"

text \<open>\<^verbatim>\<open>nextID\<close> returns the id and the backend with the counter advanced.\<close>

definition nextID :: "string \<Rightarrow> 'f Backend \<Rightarrow> string \<times> 'f Backend" where
  "nextID pfx b =
     (let b1 = b\<lparr>idCounter := wrap_int (idCounter b + 1)\<rparr>
      in (pfx @ fmt_d (idCounter b1), b1))"

subsection \<open>Attribute encoders\<close>

definition writeTransform :: "('f, 'i) lib \<Rightarrow> 'f Backend \<Rightarrow> 'f Backend" where
  \<open>writeTransform l b =
     (let m = currentTransform b
      in if IsIdentity l m then b
         else builder_WriteString
                ('' transform="matrix('' @ fmt_g l (mA m) @ '','' @ fmt_g l (mB m) @ '',''
                   @ fmt_g l (mD m) @ '','' @ fmt_g l (mE m) @ '',''
                   @ fmt_g l (mC m) @ '','' @ fmt_g l (mF m) @ '')"'') b)\<close>

definition writeClip :: "'f Backend \<Rightarrow> 'f Backend" where
  \<open>writeClip b =
     (if currentClipID b \<noteq> ''''
      then builder_WriteString ('' clip-path="url(#'' @ currentClipID b @ '')"'') b
      else b)\<close>

definition colorToCSS :: "('f, 'i) lib \<Rightarrow> 'f RGBA \<Rightarrow> string" where
  \<open>colorToCSS l c =
     (let r = f_int l (f_mul l (cR c) (f_lit l 255));
          g = f_int l (f_mul l (cG c) (f_lit l 255));
          b = f_int l (f_mul l (cB c) (f_lit l 255))
      in ''rgb('' @ fmt_d r @ '','' @ fmt_d g @ '','' @ fmt_d b @ '')'')\<close>

text \<open>
  The loop over \<^verbatim>\<open>br.Stops\<close>, the same in \<^verbatim>\<open>addLinearGradient\<close> and
  \<^verbatim>\<open>addRadialGradient\<close>.
\<close>

fun write_stops :: "('f, 'i) lib \<Rightarrow> 'f ColorStop list \<Rightarrow> 'f Backend \<Rightarrow> 'f Backend" where
  \<open>write_stops l [] b = b\<close>
| \<open>write_stops l (stop # stops) b =
     (let b1 = defs_WriteString
                 (''<stop offset="'' @ fmt_g l (Offset stop) @ ''" stop-color="''
                    @ colorToCSS l (Color stop) @ ''"'') b;
          b2 = (if f_lt l (cA (Color stop)) (f_lit l 1)
                then defs_WriteString
                       ('' stop-opacity="'' @ fmt_g l (cA (Color stop)) @ ''"'') b1
                else b1);
          b3 = defs_WriteString ''/>'' b2
      in write_stops l stops b3)\<close>

definition addLinearGradient ::
  "('f, 'i) lib \<Rightarrow> 'f LinearGradientBrush \<Rightarrow> 'f Backend \<Rightarrow> string \<times> 'f Backend" where
  \<open>addLinearGradient l br b =
     (let (gradID, b1) = nextID ''lg'' b;
          dx = f_sub l (pX (lgEnd br)) (pX (lgStart br));
          dy = f_sub l (pY (lgEnd br)) (pY (lgStart br));
          len = f_sqrt l (f_add l (f_mul l dx dx) (f_mul l dy dy));
          b2 = defs_WriteString
                 (''<linearGradient id="'' @ gradID
                    @ ''" gradientUnits="userSpaceOnUse" x1="'' @ fmt_g l (pX (lgStart br))
                    @ ''" y1="'' @ fmt_g l (pY (lgStart br))
                    @ ''" x2="'' @ fmt_g l (pX (lgEnd br))
                    @ ''" y2="'' @ fmt_g l (pY (lgEnd br)) @ ''">'') b1;
          b3 = (if f_lt l (f_lit l 0) len
                then (case lgExtend br of
                        ExtendRepeat \<Rightarrow> defs_WriteString '' spreadMethod="repeat"'' b2
                      | ExtendReflect \<Rightarrow> defs_WriteString '' spreadMethod="reflect"'' b2
                      | ExtendPad \<Rightarrow> b2)
                else b2);
          b4 = write_stops l (lgStops br) b3;
          b5 = defs_WriteString ''</linearGradient>'' b4
      in (gradID, b5))\<close>

definition addRadialGradient ::
  "('f, 'i) lib \<Rightarrow> 'f RadialGradientBrush \<Rightarrow> 'f Backend \<Rightarrow> string \<times> 'f Backend" where
  \<open>addRadialGradient l br b =
     (let (gradID, b1) = nextID ''rg'' b;
          b2 = defs_WriteString
                 (''<radialGradient id="'' @ gradID
                    @ ''" gradientUnits="userSpaceOnUse" cx="'' @ fmt_g l (pX (rgCenter br))
                    @ ''" cy="'' @ fmt_g l (pY (rgCenter br))
                    @ ''" r="'' @ fmt_g l (rgEndRadius br)
                    @ ''" fx="'' @ fmt_g l (pX (rgFocus br))
                    @ ''" fy="'' @ fmt_g l (pY (rgFocus br)) @ ''">'') b1;
          b3 = (case rgExtend br of
                  ExtendRepeat \<Rightarrow> defs_WriteString '' spreadMethod="repeat"'' b2
                | ExtendReflect \<Rightarrow> defs_WriteString '' spreadMethod="reflect"'' b2
                | ExtendPad \<Rightarrow> b2);
          b4 = write_stops l (rgStops br) b3;
          b5 = defs_WriteString ''</radialGradient>'' b4
      in (gradID, b5))\<close>

definition writeFill :: "('f, 'i) lib \<Rightarrow> 'f Brush \<Rightarrow> 'f Backend \<Rightarrow> 'f Backend" where
  \<open>writeFill l brush b =
     (case brush of
        BrSolid c \<Rightarrow>
          (let b1 = builder_WriteString ('' fill="'' @ colorToCSS l c @ ''"'') b
           in if f_lt l (cA c) (f_lit l 1)
              then builder_WriteString ('' fill-opacity="'' @ fmt_g l (cA c) @ ''"'') b1
              else b1)
      | BrLinear br \<Rightarrow>
          (let (gradID, b1) = addLinearGradient l br b
           in builder_WriteString ('' fill="url(#'' @ gradID @ '')"'') b1)
      | BrRadial br \<Rightarrow>
          (let (gradID, b1) = addRadialGradient l br b
           in builder_WriteString ('' fill="url(#'' @ gradID @ '')"'') b1)
      | BrSweep br \<Rightarrow>
          (case swStops br of
             stop # _ \<Rightarrow>
               builder_WriteString ('' fill="'' @ colorToCSS l (Color stop) @ ''"'') b
           | [] \<Rightarrow> builder_WriteString '' fill="black"'' b)
      | BrOther \<Rightarrow> builder_WriteString '' fill="black"'' b)\<close>

text \<open>\<^verbatim>\<open>strings.Join(elems, sep)\<close>.\<close>

fun Join :: "string list \<Rightarrow> string \<Rightarrow> string" where
  "Join [] sep = ''''"
| "Join [s] sep = s"
| "Join (s # t # ss) sep = s @ sep @ Join (t # ss) sep"

definition writeStroke ::
  "('f, 'i) lib \<Rightarrow> 'f Brush \<Rightarrow> 'f Stroke \<Rightarrow> 'f Backend \<Rightarrow> 'f Backend" where
  \<open>writeStroke l brush stroke b =
     (let b1 =
            (case brush of
               BrSolid c \<Rightarrow>
                 (let b' = builder_WriteString ('' stroke="'' @ colorToCSS l c @ ''"'') b
                  in if f_lt l (cA c) (f_lit l 1)
                     then builder_WriteString
                            ('' stroke-opacity="'' @ fmt_g l (cA c) @ ''"'') b'
                     else b')
             | BrLinear br \<Rightarrow>
                 (let (gradID, b') = addLinearGradient l br b
                  in builder_WriteString ('' stroke="url(#'' @ gradID @ '')"'') b')
             | BrRadial br \<Rightarrow>
                 (let (gradID, b') = addRadialGradient l br b
                  in builder_WriteString ('' stroke="url(#'' @ gradID @ '')"'') b')
             | _ \<Rightarrow> builder_WriteString '' stroke="black"'' b);
          b2 = builder_WriteString
                 ('' stroke-width="'' @ fmt_g l (sWidth stroke) @ ''"'') b1;
          b3 = (case sCap stroke of
                  LineCapRound \<Rightarrow> builder_WriteString '' stroke-linecap="round"'' b2
                | LineCapSquare \<Rightarrow> builder_WriteString '' stroke-linecap="square"'' b2
                | LineCapButt \<Rightarrow> builder_WriteString '' stroke-linecap="butt"'' b2);
          b4 = (case sJoin stroke of
                  LineJoinRound \<Rightarrow> builder_WriteString '' stroke-linejoin="round"'' b3
                | LineJoinBevel \<Rightarrow> builder_WriteString '' stroke-linejoin="bevel"'' b3
                | LineJoinMiter \<Rightarrow>
                    (let b' = builder_WriteString '' stroke-linejoin="miter"'' b3
                     in if f_lt l (f_lit l 0) (sMiterLimit stroke)
                        then builder_WriteString
                               ('' stroke-miterlimit="'' @ fmt_g l (sMiterLimit stroke)
                                  @ ''"'') b'
                        else b'))
      in if 0 < length (sDashPattern stroke)
         then (let dashStrs = map (fmt_g l) (sDashPattern stroke);
                   b5 = builder_WriteString
                          ('' stroke-dasharray="'' @ Join dashStrs '' '' @ ''"'') b4
               in if \<not> f_eq l (sDashOffset stroke) (f_lit l 0)
                  then builder_WriteString
                         ('' stroke-dashoffset="'' @ fmt_g l (sDashOffset stroke) @ ''"'') b5
                  else b5)
         else b4)\<close>

subsection \<open>Clipping and drawing calls\<close>

text \<open>A \<^verbatim>\<open>*gg.Path\<close> argument is \<open>None\<close> when it is nil.\<close>

definition SetClip ::
  "('f, 'i) lib \<Rightarrow> 'f Path option \<Rightarrow> FillRule \<Rightarrow> 'f Backend \<Rightarrow> 'f Backend" where
  \<open>SetClip l path rule b =
     (case path of
        None \<Rightarrow> b
      | Some p \<Rightarrow>
          (let (clipID, b1) = nextID ''clip'' b;
               b2 = b1\<lparr>currentClipID := clipID\<rparr>;
               b3 = defs_WriteString (''<clipPath id="'' @ clipID @ ''">'') b2;
               b4 = defs_WriteString (''<path d="'' @ pathToD l p @ ''"'') b3;
               b5 = (if rule = FillRuleEvenOdd
                     then defs_WriteString '' clip-rule="evenodd"'' b4 else b4)
           in defs_WriteString ''/></clipPath>'' b5))\<close>

definition FillPath ::
  "('f, 'i) lib \<Rightarrow> 'f Path option \<Rightarrow> 'f Brush \<Rightarrow> FillRule \<Rightarrow> 'f Backend \<Rightarrow> 'f Backend" where
  \<open>FillPath l path brush rule b =
     (case path of
        None \<Rightarrow> b
      | Some p \<Rightarrow>
          (let b1 = builder_WriteString ''<path'' b;
               b2 = writeTransform l b1;
               b3 = writeClip b2;
               b4 = builder_WriteString ('' d="'' @ pathToD l p @ ''"'') b3;
               b5 = writeFill l brush b4;
               b6 = (if rule = FillRuleEvenOdd
                     then builder_WriteString '' fill-rule="evenodd"'' b5 else b5);
               b7 = builder_WriteString '' stroke="none"'' b6
           in builder_WriteString ''/>'' b7))\<close>

definition StrokePath ::
  "('f, 'i) lib \<Rightarrow> 'f Path option \<Rightarrow> 'f Brush \<Rightarrow> 'f Stroke \<Rightarrow> 'f Backend \<Rightarrow> 'f Backend" where
  \<open>StrokePath l path brush stroke b =
     (case path of
        None \<Rightarrow> b
      | Some p \<Rightarrow>
          (let b1 = builder_WriteString ''<path'' b;
               b2 = writeTransform l b1;
               b3 = writeClip b2;
               b4 = builder_WriteString ('' d="'' @ pathToD l p @ ''"'') b3;
               b5 = builder_WriteString '' fill="none"'' b4;
               b6 = writeStroke l brush stroke b5
           in builder_WriteString ''/>'' b6))\<close>

definition FillRect ::
  "('f, 'i) lib \<Rightarrow> 'f Rect \<Rightarrow> 'f Brush \<Rightarrow> 'f Backend \<Rightarrow> 'f Backend" where
  \<open>FillRect l rect brush b =
     (let b1 = builder_WriteString ''<rect'' b;
          b2 = writeTransform l b1;
          b3 = writeClip b2;
          b4 = builder_WriteString
                 ('' x="'' @ fmt_g l (MinX rect) @ ''" y="'' @ fmt_g l (MinY rect)
                    @ ''" width="'' @ fmt_g l (Rect_Width l rect)
                    @ ''" height="'' @ fmt_g l (Rect_Height l rect) @ ''"'') b3;
          b5 = writeFill l brush b4;
          b6 = builder_WriteString '' stroke="none"'' b5
      in builder_WriteString ''/>'' b6)\<close>

text \<open>
  An \<^verbatim>\<open>image.Image\<close> argument is \<open>None\<close> when it is nil. The source
  rectangle is not read.
\<close>

definition DrawImage ::
  "('f, 'i) lib \<Rightarrow> 'i option \<Rightarrow> 'f Rect \<Rightarrow> 'f Rect \<Rightarrow> 'f ImageOptions
     \<Rightarrow> 'f Backend \<Rightarrow> 'f Backend" where
  \<open>DrawImage l img src dst opts b =
     (case img of
        None \<Rightarrow> b
      | Some im \<Rightarrow>
          (case png_Encode l im of
             None \<Rightarrow> b
           | Some buf \<Rightarrow>
               (let dataURI = ''data:image/png;base64,'' @ base64_EncodeToString l buf;
                    b1 = builder_WriteString ''<image'' b;
                    b2 = writeTransform l b1;
                    b3 = writeClip b2;
                    b4 = builder_WriteString
                           ('' x="'' @ fmt_g l (MinX dst) @ ''" y="'' @ fmt_g l (MinY dst)
                              @ ''" width="'' @ fmt_g l (Rect_Width l dst)
                              @ ''" height="'' @ fmt_g l (Rect_Height l dst) @ ''"'') b3;
                    b5 = builder_WriteString ('' href="'' @ dataURI @ ''"'') b4;
                    b6 = (if f_lt l (opt_Alpha opts) (f_lit l 1)
                          then builder_WriteString
                                 ('' opacity="'' @ fmt_g l (opt_Alpha opts) @ ''"'') b5
                          else b5);
                    b7 = builder_WriteString '' preserveAspectRatio="none"'' b6
                in builder_WriteString ''/>'' b7)))\<close>

text \<open>
  \<^verbatim>\<open>strings.ReplaceAll(s, old, new)\<close> for a non-empty \<^verbatim>\<open>old\<close>, which is what
  every call in \<^verbatim>\<open>escapeXML\<close> passes: the non-overlapping occurrences of
  \<^verbatim>\<open>old\<close>, found from the left, are replaced.
\<close>

function ReplaceAll :: "string \<Rightarrow> string \<Rightarrow> string \<Rightarrow> string" where
  "ReplaceAll s old new =
     (if old = [] \<or> s = [] then s
      else if prefix old s then new @ ReplaceAll (drop (length old) s) old new
      else hd s # ReplaceAll (tl s) old new)"
  by pat_completeness auto
termination
  by (relation "measure (\<lambda>(s, old, new). length s)") auto

declare ReplaceAll.simps [simp del]

definition escapeXML :: "string \<Rightarrow> string" where
  \<open>escapeXML s =
     (let s1 = ReplaceAll s ''&'' ''&amp;'';
          s2 = ReplaceAll s1 ''<'' ''&lt;'';
          s3 = ReplaceAll s2 ''>'' ''&gt;'';
          s4 = ReplaceAll s3 [CHR 0x22] ''&quot;'';
          s5 = ReplaceAll s4 [CHR 0x27] ''&apos;''
      in s5)\<close>

text \<open>A \<^verbatim>\<open>text.Face\<close> argument is \<open>None\<close> when it is nil.\<close>

definition DrawText ::
  "('f, 'i) lib \<Rightarrow> string \<Rightarrow> 'f \<Rightarrow> 'f \<Rightarrow> 'f Face option \<Rightarrow> 'f Brush
     \<Rightarrow> 'f Backend \<Rightarrow> 'f Backend" where
  \<open>DrawText l s x y face brush b =
     (let b1 = builder_WriteString ''<text'' b;
          b2 = writeTransform l b1;
          b3 = writeClip b2;
          b4 = builder_WriteString
                 ('' x="'' @ fmt_g l x @ ''" y="'' @ fmt_g l y @ ''"'') b3;
          fontSize =
            (case face of
               None \<Rightarrow> f_lit l 12
             | Some fc \<Rightarrow>
                 (let fs = face_Size fc
                  in if f_le l fs (f_lit l 0)
                     then (let lh = face_LineHeight fc
                           in if f_le l lh (f_lit l 0) then f_lit l 12 else lh)
                     else fs));
          b5 = builder_WriteString ('' font-size="'' @ fmt_g l fontSize @ ''"'') b4;
          b6 = writeFill l brush b5;
          b7 = builder_WriteString ''>'' b6;
          b8 = builder_WriteString (escapeXML s) b7
      in builder_WriteString ''</text>'' b8)\<close>

subsection \<open>Serialisation\<close>

text \<open>
  An \<^verbatim>\<open>io.Writer\<close> is a sink state \<open>'w\<close> with its \<^verbatim>\<open>Write\<close> method: the new
  sink state, the byte count \<^verbatim>\<open>n\<close> and the error (\<open>None\<close> is nil).
  \<open>buffer_Write\<close> is the \<^verbatim>\<open>Write\<close> of a \<^verbatim>\<open>bytes.Buffer\<close>, which appends and
  never fails.
\<close>

type_synonym ('w, 'e) Writer = "'w \<Rightarrow> string \<Rightarrow> 'w \<times> int \<times> 'e option"

definition buffer_Write :: "(string, 'e) Writer" where
  "buffer_Write w p = (w @ p, int (length p), None)"

definition header :: "'f Backend \<Rightarrow> string" where
  \<open>header b =
     ''<?xml version="1.0" encoding="UTF-8"?>\<newline><svg xmlns="http://www.w3.org/2000/svg" xmlns:xlink="http://www.w3.org/1999/xlink" width="''
       @ fmt_d (width b) @ ''" height="'' @ fmt_d (height b)
       @ ''" viewBox="0 0 '' @ fmt_d (width b) @ '' '' @ fmt_d (height b) @ ''">\<newline>''\<close>

text \<open>
  The step that \<^verbatim>\<open>WriteTo\<close> repeats: \<^verbatim>\<open>n, err = w.Write(p)\<close>,
  \<^verbatim>\<open>total += int64(n)\<close>, and the early return when \<^verbatim>\<open>err\<close> is not nil.
  \<open>Inl\<close> is the early return with the result of \<^verbatim>\<open>WriteTo\<close>, \<open>Inr\<close> goes on.
\<close>

definition write_chunk ::
  "('w, 'e) Writer \<Rightarrow> string \<Rightarrow> 'w \<Rightarrow> int \<Rightarrow> ('w \<times> int \<times> 'e option) + ('w \<times> int)" where
  "write_chunk wr p w tot =
     (case wr w p of
        (w1, n, err) \<Rightarrow>
          (let tot1 = wrap_int (tot + n)
           in case err of
                Some e \<Rightarrow> Inl (w1, tot1, Some e)
              | None \<Rightarrow> Inr (w1, tot1)))"

text \<open>The loop closing the groups that are still open, from iteration \<open>i\<close> on.\<close>

function close_groups ::
  "('w, 'e) Writer \<Rightarrow> 'f Backend \<Rightarrow> int \<Rightarrow> 'w \<Rightarrow> int \<Rightarrow> ('w \<times> int \<times> 'e option) + ('w \<times> int)" where
  "close_groups wr b i w tot =
     (if i < groupDepth b
      then (case write_chunk wr ''</g>'' w tot of
              Inl r \<Rightarrow> Inl r
            | Inr (w1, tot1) \<Rightarrow> close_groups wr b (i + 1) w1 tot1)
      else Inr (w, tot))"
  by pat_completeness auto
termination
  by (relation "measure (\<lambda>(wr, b, i, w, tot). nat (groupDepth b - i))") auto

declare close_groups.simps [simp del]

text \<open>\<^verbatim>\<open>WriteTo\<close> returns the sink, the byte count and the error.\<close>

definition WriteTo ::
  "('w, 'e) Writer \<Rightarrow> 'f Backend \<Rightarrow> 'w \<Rightarrow> 'w \<times> int \<times> 'e option" where
  \<open>WriteTo wr b w =
     (case write_chunk wr (header b) w 0 of
        Inl r \<Rightarrow> r
      | Inr (w1, t1) \<Rightarrow>
          (case (let ds = String (defs b)
                 in if ds \<noteq> ''''
                    then (case write_chunk wr ''<defs>'' w1 t1 of
                            Inl r \<Rightarrow> Inl r
                          | Inr (w2, t2) \<Rightarrow>
                              (case write_chunk wr ds w2 t2 of
                                 Inl r \<Rightarrow> Inl r
                               | Inr (w3, t3) \<Rightarrow>
                                   write_chunk wr ''</defs>\<newline>'' w3 t3))
                    else Inr (w1, t1)) of
             Inl r \<Rightarrow> r
           | Inr (w4, t4) \<Rightarrow>
               (case write_chunk wr (String (builder b)) w4 t4 of
                  Inl r \<Rightarrow> r
                | Inr (w5, t5) \<Rightarrow>
                    (case close_groups wr b 0 w5 t5 of
                       Inl r \<Rightarrow> r
                     | Inr (w6, t6) \<Rightarrow>
                         (case wr w6 ''\<newline></svg>\<newline>'' of
                            (w7, n, err) \<Rightarrow> (w7, wrap_int (t6 + n), err))))))\<close>

subsection \<open>Command sequences\<close>

text \<open>
  The commands a client can send between \<^verbatim>\<open>NewBackend\<close> and \<^verbatim>\<open>WriteTo\<close>,
  and the state after one of them.
\<close>

datatype ('f, 'i) Command =
    CBegin int int
  | CEnd
  | CSave
  | CRestore
  | CSetTransform "'f Matrix"
  | CSetClip "'f Path option" FillRule
  | CClearClip
  | CFillPath "'f Path option" "'f Brush" FillRule
  | CStrokePath "'f Path option" "'f Brush" "'f Stroke"
  | CFillRect "'f Rect" "'f Brush"
  | CDrawImage "'i option" "'f Rect" "'f Rect" "'f ImageOptions"
  | CDrawText string 'f 'f "'f Face option" "'f Brush"

fun exec :: "('f, 'i) lib \<Rightarrow> ('f, 'i) Command \<Rightarrow> 'f Backend \<Rightarrow> 'f Backend" where
  "exec l (CBegin w h) b = Begin l w h b"
| "exec l CEnd b = End b"
| "exec l CSave b = Save b"
| "exec l CRestore b = Restore b"
| "exec l (CSetTransform m) b = SetTransform m b"
| "exec l (CSetClip path rule) b = SetClip l path rule b"
| "exec l CClearClip b = ClearClip b"
| "exec l (CFillPath path brush rule) b = FillPath l path brush rule b"
| "exec l (CStrokePath path brush stroke) b = StrokePath l path brush stroke b"
| "exec l (CFillRect rect brush) b = FillRect l rect brush b"
| "exec l (CDrawImage img src dst opts) b = DrawImage l img src dst opts b"
| "exec l (CDrawText s x y face brush) b = DrawText l s x y face brush b"

text \<open>
  Go holds a slice or a string only if its length is an \<^verbatim>\<open>int\<close>: a state
  whose stack or buffers are longer does not exist at run time.
\<close>

definition representable :: "'f Backend \<Rightarrow> bool" where
  "representable b \<longleftrightarrow>
     int (length (stateStack b)) \<le> max_int \<and>
     int (length (String (builder b))) \<le> max_int \<and>
     int (length (String (defs b))) \<le> max_int"

text \<open>
  The states a client can reach: a new backend, and the state after any
  command issued in a reachable state.
\<close>

inductive reachable :: "('f, 'i) lib \<Rightarrow> 'f Backend \<Rightarrow> bool" for l :: "('f, 'i) lib" where
  reachable_new: "reachable l (NewBackend l)"
| reachable_exec:
    "reachable l b \<Longrightarrow> representable (exec l c b) \<Longrightarrow> reachable l (exec l c b)"

subsection \<open>An instance of the library primitives\<close>

text \<open>
  To run the definitions on concrete inputs: the primitives on numbers that
  are integers, printed in decimal, with the integer square root. Among
  matrices of integers \<open>IsIdentity\<close> accepts the identity alone (an integer
  close to 0 or 1 is 0 or 1).
\<close>

definition int_sqrt :: "int \<Rightarrow> int" where
  "int_sqrt x = int (length (filter (\<lambda>k. int (k * k) \<le> x) [1..<Suc (nat x)]))"

definition int_lib :: "(int, string) lib" where
  "int_lib = \<lparr>fmt_g = fmt_d, f_lt = (<), f_le = (\<le>), f_eq = (=), f_add = (+), f_sub = (-),
     f_mul = (*), f_sqrt = int_sqrt, f_lit = (\<lambda>n. n), f_int = (\<lambda>x. x),
     IsIdentity = (\<lambda>m. mA m = 1 \<and> mB m = 0 \<and> mC m = 0 \<and> mD m = 0 \<and> mE m = 1 \<and> mF m = 0),
     png_Encode = Some, base64_EncodeToString = (\<lambda>s. s)\<rparr>"

text \<open>The point with the constants \<open>x\<close> and \<open>y\<close> as coordinates.\<close>

definition pt :: "('f, 'i) lib \<Rightarrow> int \<Rightarrow> int \<Rightarrow> 'f Point" where
  "pt l x y = \<lparr>pX = f_lit l x, pY = f_lit l y\<rparr>"

subsection \<open>Reading the buffers back\<close>

text \<open>
  What one character of the input becomes after the five passes of
  \<^verbatim>\<open>escapeXML\<close>.
\<close>

definition xml_entity :: "char \<Rightarrow> string" where
  "xml_entity c =
     (if c = CHR ''&'' then ''&amp;'' else if c = CHR ''<'' then ''&lt;''
      else if c = CHR ''>'' then ''&gt;'' else if c = CHR 0x22 then ''&quot;''
      else if c = CHR 0x27 then ''&apos;'' else [c])"

text \<open>The chunks that the loop over the stops writes to the definitions.\<close>

fun stop_chunks :: "('f, 'i) lib \<Rightarrow> 'f ColorStop list \<Rightarrow> string list" where
  \<open>stop_chunks l [] = []\<close>
| \<open>stop_chunks l (stop # stops) =
     (''<stop offset="'' @ fmt_g l (Offset stop) @ ''" stop-color="''
        @ colorToCSS l (Color stop) @ ''"'')
     # (if f_lt l (cA (Color stop)) (f_lit l 1)
        then ['' stop-opacity="'' @ fmt_g l (cA (Color stop)) @ ''"''] else [])
     @ ''/>'' # stop_chunks l stops\<close>

text \<open>
  The id that a chunk of the definitions buffer declares: the chunk opens a
  \<^verbatim>\<open>clipPath\<close>, \<^verbatim>\<open>linearGradient\<close> or \<^verbatim>\<open>radialGradient\<close> element and the id is
  the value of its \<^verbatim>\<open>id\<close> attribute. \<open>None\<close> for every other chunk.
\<close>

definition def_id :: "string \<Rightarrow> string option" where
  \<open>def_id c =
     (if prefix ''<clipPath id="'' c
      then Some (takeWhile (\<lambda>x. x \<noteq> CHR 0x22) (drop (length ''<clipPath id="'') c))
      else if prefix ''<linearGradient id="'' c
      then Some (takeWhile (\<lambda>x. x \<noteq> CHR 0x22) (drop (length ''<linearGradient id="'') c))
      else if prefix ''<radialGradient id="'' c
      then Some (takeWhile (\<lambda>x. x \<noteq> CHR 0x22) (drop (length ''<radialGradient id="'') c))
      else None)\<close>

text \<open>
  The id that a chunk of the content buffer refers to: the chunk is a
  \<^verbatim>\<open>fill\<close>, \<^verbatim>\<open>stroke\<close> or \<^verbatim>\<open>clip-path\<close> attribute whose value is \<^verbatim>\<open>url(#id)\<close>.
  \<open>None\<close> for every other chunk.
\<close>

definition ref_id :: "string \<Rightarrow> string option" where
  \<open>ref_id c =
     (if prefix '' fill="url(#'' c
      then Some (takeWhile (\<lambda>x. x \<noteq> CHR '')'') (drop (length '' fill="url(#'') c))
      else if prefix '' stroke="url(#'' c
      then Some (takeWhile (\<lambda>x. x \<noteq> CHR '')'') (drop (length '' stroke="url(#'') c))
      else if prefix '' clip-path="url(#'' c
      then Some (takeWhile (\<lambda>x. x \<noteq> CHR '')'') (drop (length '' clip-path="url(#'') c))
      else None)\<close>

definition ids_defined :: "string list \<Rightarrow> string list" where
  "ids_defined chunks = List.map_filter def_id chunks"

definition ids_referenced :: "string list \<Rightarrow> string list" where
  "ids_referenced chunks = List.map_filter ref_id chunks"

text \<open>
  The ids defined in the definitions buffer, one entry per definition, and
  the ids referenced from the content buffer, one entry per reference.
\<close>

definition defined_ids :: "'f Backend \<Rightarrow> string list" where
  "defined_ids b = ids_defined (defs b)"

definition referenced_ids :: "'f Backend \<Rightarrow> string list" where
  "referenced_ids b = ids_referenced (builder b)"

text \<open>The number at the end of an id, read back from its decimal digits.\<close>

definition digit_val :: "char \<Rightarrow> nat" where
  "digit_val c =
     (if c = CHR ''1'' then 1 else if c = CHR ''2'' then 2 else if c = CHR ''3'' then 3
      else if c = CHR ''4'' then 4 else if c = CHR ''5'' then 5 else if c = CHR ''6'' then 6
      else if c = CHR ''7'' then 7 else if c = CHR ''8'' then 8 else if c = CHR ''9'' then 9
      else 0)"

definition undec :: "string \<Rightarrow> nat" where
  "undec s = foldl (\<lambda>a c. 10 * a + digit_val c) 0 s"

definition id_num :: "string \<Rightarrow> nat" where
  "id_num i = undec (dropWhile (\<lambda>c. c \<notin> set ''0123456789'') i)"

text \<open>
  The effect of a call on the buffers and the counter. \<open>appends b b' X Y\<close>:
  \<open>b'\<close> is \<open>b\<close> with the chunks \<open>X\<close> appended to the content, the chunks \<open>Y\<close>
  appended to the definitions, and possibly another counter.
\<close>

definition appends :: "'f Backend \<Rightarrow> 'f Backend \<Rightarrow> string list \<Rightarrow> string list \<Rightarrow> bool" where
  "appends b b' X Y \<longleftrightarrow>
     (\<exists>n. b' = b\<lparr>builder := builder b @ X, defs := defs b @ Y, idCounter := n\<rparr>)"

definition clip_ids :: "'f Backend \<Rightarrow> string set" where
  "clip_ids b = (if currentClipID b = '''' then {} else {currentClipID b})"

text \<open>
  A chunk that neither refers to an id nor opens or closes a group; and a
  list of chunks none of which opens or closes a group.
\<close>

definition quiet :: "string \<Rightarrow> bool" where
  "quiet s \<longleftrightarrow> ref_id s = None \<and> s \<noteq> ''<g>'' \<and> s \<noteq> ''</g>''"

definition neutral :: "string list \<Rightarrow> bool" where
  "neutral X \<longleftrightarrow> ''<g>'' \<notin> set X \<and> ''</g>'' \<notin> set X"

text \<open>
  The number of groups left open by a list of chunks read at depth \<open>d\<close>:
  \<open>None\<close> when a group is closed that was not opened.
\<close>

fun nesting :: "string list \<Rightarrow> nat \<Rightarrow> nat option" where
  "nesting [] d = Some d"
| "nesting (c # cs) d =
     (if c = ''<g>'' then nesting cs (Suc d)
      else if c = ''</g>'' then (case d of 0 \<Rightarrow> None | Suc d' \<Rightarrow> nesting cs d')
      else nesting cs d)"

text \<open>
  \<open>plain b b'\<close>: from \<open>b\<close> to \<open>b'\<close> only content was written; it refers to
  nothing but the current clip path and opens or closes no group.
\<close>

definition plain :: "'f Backend \<Rightarrow> 'f Backend \<Rightarrow> bool" where
  "plain b b' \<longleftrightarrow>
     (\<exists>X. appends b b' X [] \<and> neutral X \<and> idCounter b' = idCounter b \<and>
          set (ids_referenced X) \<subseteq> clip_ids b)"

text \<open>
  \<open>paints b b'\<close>: from \<open>b\<close> to \<open>b'\<close> either no definition was written, or
  exactly one, under the next id of the counter; the content written refers
  to nothing but the current clip path and that definition, and opens or
  closes no group.
\<close>

definition paints :: "'f Backend \<Rightarrow> 'f Backend \<Rightarrow> bool" where
  "paints b b' \<longleftrightarrow>
     (\<exists>X Y. appends b b' X Y \<and> neutral X \<and>
        ((ids_defined Y = [] \<and> idCounter b' = idCounter b \<and>
          set (ids_referenced X) \<subseteq> clip_ids b) \<or>
         (\<exists>pfx. pfx \<in> {''clip'', ''lg'', ''rg''} \<and>
            ids_defined Y = [pfx @ fmt_d (idCounter b')] \<and>
            idCounter b' = wrap_int (idCounter b + 1) \<and>
            2 \<le> length (String Y) \<and>
            set (ids_referenced X) \<subseteq> insert (pfx @ fmt_d (idCounter b')) (clip_ids b))))"

text \<open>An id in which neither attribute values nor \<^verbatim>\<open>url(...)\<close> can end.\<close>

definition id_ok :: "string \<Rightarrow> bool" where
  "id_ok i \<longleftrightarrow> CHR 0x22 \<notin> set i \<and> CHR '')'' \<notin> set i"

text \<open>The invariant behind the integrity of the references.\<close>

definition ids_inv :: "'f Backend \<Rightarrow> bool" where
  "ids_inv b \<longleftrightarrow>
     0 \<le> idCounter b \<and> 2 * idCounter b \<le> int (length (String (defs b))) \<and>
     (\<forall>i \<in> set (defined_ids b). int (id_num i) \<le> idCounter b) \<and>
     distinct (defined_ids b) \<and>
     set (referenced_ids b) \<subseteq> set (defined_ids b) \<and>
     id_ok (currentClipID b) \<and>
     (currentClipID b = '''' \<or> currentClipID b \<in> set (defined_ids b)) \<and>
     (\<forall>s \<in> set (stateStack b).
        id_ok (clipID s) \<and> (clipID s = '''' \<or> clipID s \<in> set (defined_ids b)))"

text \<open>
  The length of the gradient vector as \<^verbatim>\<open>addLinearGradient\<close> computes it,
  and the chunks that \<^verbatim>\<open>addLinearGradient\<close> and \<^verbatim>\<open>addRadialGradient\<close> write
  to the definitions for the id \<open>gradID\<close>.
\<close>

definition gradient_length :: "('f, 'i) lib \<Rightarrow> 'f LinearGradientBrush \<Rightarrow> 'f" where
  "gradient_length l br =
     (let dx = f_sub l (pX (lgEnd br)) (pX (lgStart br));
          dy = f_sub l (pY (lgEnd br)) (pY (lgStart br))
      in f_sqrt l (f_add l (f_mul l dx dx) (f_mul l dy dy)))"

definition spread_chunks :: "ExtendMode \<Rightarrow> string list" where
  \<open>spread_chunks e =
     (case e of
        ExtendRepeat \<Rightarrow> ['' spreadMethod="repeat"'']
      | ExtendReflect \<Rightarrow> ['' spreadMethod="reflect"'']
      | ExtendPad \<Rightarrow> [])\<close>

definition linearGradient_chunks ::
  "('f, 'i) lib \<Rightarrow> 'f LinearGradientBrush \<Rightarrow> string \<Rightarrow> string list" where
  \<open>linearGradient_chunks l br gradID =
     (''<linearGradient id="'' @ gradID
        @ ''" gradientUnits="userSpaceOnUse" x1="'' @ fmt_g l (pX (lgStart br))
        @ ''" y1="'' @ fmt_g l (pY (lgStart br))
        @ ''" x2="'' @ fmt_g l (pX (lgEnd br))
        @ ''" y2="'' @ fmt_g l (pY (lgEnd br)) @ ''">'')
     # (if f_lt l (f_lit l 0) (gradient_length l br) then spread_chunks (lgExtend br) else [])
     @ stop_chunks l (lgStops br) @ [''</linearGradient>'']\<close>

definition radialGradient_chunks ::
  "('f, 'i) lib \<Rightarrow> 'f RadialGradientBrush \<Rightarrow> string \<Rightarrow> string list" where
  \<open>radialGradient_chunks l br gradID =
     (''<radialGradient id="'' @ gradID
        @ ''" gradientUnits="userSpaceOnUse" cx="'' @ fmt_g l (pX (rgCenter br))
        @ ''" cy="'' @ fmt_g l (pY (rgCenter br))
        @ ''" r="'' @ fmt_g l (rgEndRadius br)
        @ ''" fx="'' @ fmt_g l (pX (rgFocus br))
        @ ''" fy="'' @ fmt_g l (pY (rgFocus br)) @ ''">'')
     # spread_chunks (rgExtend br)
     @ stop_chunks l (rgStops br) @ [''</radialGradient>'']\<close>

text \<open>
  The start tag of the element that a text opens with: the text before the
  first \<^verbatim>\<open>>\<close> (no attribute value that the backend writes into a gradient
  holds one). The element has the attribute \<open>name\<close> when \<open> name="\<close> occurs
  in its start tag; what follows the start tag is content of the element.
\<close>

definition start_tag :: "string \<Rightarrow> string" where
  "start_tag s = takeWhile (\<lambda>c. c \<noteq> CHR ''>'') s"

fun occurs :: "string \<Rightarrow> string \<Rightarrow> bool" where
  "occurs p [] = (p = [])"
| "occurs p (c # s) = (prefix p (c # s) \<or> occurs p s)"

definition has_attribute :: "string \<Rightarrow> string \<Rightarrow> bool" where
  \<open>has_attribute name s = occurs ('' '' @ name @ ''="'') (start_tag s)\<close>

text \<open>The chunks that \<^verbatim>\<open>SetClip\<close> writes to the definitions for the id \<open>cid\<close>.\<close>

definition clip_chunks :: "('f, 'i) lib \<Rightarrow> 'f Path \<Rightarrow> FillRule \<Rightarrow> string \<Rightarrow> string list" where
  \<open>clip_chunks l p rule cid =
     [''<clipPath id="'' @ cid @ ''">'', ''<path d="'' @ pathToD l p @ ''"'']
     @ (if rule = FillRuleEvenOdd then ['' clip-rule="evenodd"''] else [])
     @ [''/></clipPath>'']\<close>

subsection \<open>Example states\<close>

text \<open>
  Two saves and one restore after \<^verbatim>\<open>Begin\<close>; a linear gradient from (0,0)
  to (3,4) that repeats; a clip path followed by a rectangle filled with
  that gradient.
\<close>

definition example_nesting :: "int Backend" where
  "example_nesting =
     exec int_lib CRestore (exec int_lib CSave (exec int_lib CSave
       (exec int_lib (CBegin 800 600) (NewBackend int_lib))))"

definition example_gradient :: "int LinearGradientBrush" where
  "example_gradient =
     \<lparr>lgStart = pt int_lib 0 0, lgEnd = pt int_lib 3 4,
      lgStops = [\<lparr>Offset = 0, Color = \<lparr>cR = 1, cG = 0, cB = 0, cA = 1\<rparr>\<rparr>,
                 \<lparr>Offset = 1, Color = \<lparr>cR = 0, cG = 1, cB = 0, cA = 1\<rparr>\<rparr>],
      lgExtend = ExtendRepeat\<rparr>"

definition example_drawing :: "int Backend" where
  "example_drawing =
     exec int_lib (CFillRect \<lparr>MinX = 20, MinY = 20, MaxX = 180, MaxY = 140\<rparr>
                     (BrLinear example_gradient))
       (exec int_lib (CSetClip (Some [MoveTo (pt int_lib 10 20), LineTo (pt int_lib 30 40), Close])
                        FillRuleNonZero)
          (exec int_lib (CBegin 400 300) (NewBackend int_lib)))"

text \<open>A rectangle filled with that gradient, straight after \<^verbatim>\<open>Begin\<close>.\<close>

definition example_spread :: "int Backend" where
  "example_spread =
     exec int_lib (CFillRect \<lparr>MinX = 0, MinY = 0, MaxX = 100, MaxY = 50\<rparr>
                     (BrLinear example_gradient))
       (exec int_lib (CBegin 400 300) (NewBackend int_lib))"

subsection \<open>Channels of a colour\<close>

text \<open>
  The text of one channel in \<^verbatim>\<open>colorToCSS\<close>: \<^verbatim>\<open>int(x * 255)\<close> printed with
  \<^verbatim>\<open>%d\<close>.
\<close>

definition channel :: "('f, 'i) lib \<Rightarrow> 'f \<Rightarrow> string" where
  "channel l x = fmt_d (f_int l (f_mul l x (f_lit l 255)))"

text \<open>Discarding the fraction of a number: truncation towards zero.\<close>

definition toward_zero :: "rat \<Rightarrow> int" where
  "toward_zero q = (if 0 \<le> q then \<lfloor>q\<rfloor> else \<lceil>q\<rceil>)"

text \<open>
  What IEEE 754 and the Go specification say of \<^verbatim>\<open>int(x * 255)\<close> for a
  \<^verbatim>\<open>float64\<close> \<open>x\<close> of value \<open>val x\<close>, when the product neither overflows nor
  underflows and fits an \<^verbatim>\<open>int\<close>: the product is rounded to nearest, so its
  relative error is at most \<^verbatim>\<open>2^-53\<close>, and the conversion discards the
  fraction.
\<close>

definition float_model :: "('f, 'i) lib \<Rightarrow> ('f \<Rightarrow> rat) \<Rightarrow> 'f \<Rightarrow> bool" where
  "float_model l val x \<longleftrightarrow>
     \<bar>val (f_mul l x (f_lit l 255)) - val x * 255\<bar> \<le> \<bar>val x * 255\<bar> / 2 ^ 53 \<and>
     f_int l (f_mul l x (f_lit l 255)) = toward_zero (val (f_mul l x (f_lit l 255)))"

text \<open>
  An instance of the primitives on rational numbers, with exact arithmetic
  and the truncating conversion, to run \<^verbatim>\<open>colorToCSS\<close> on channels that are
  not integers. (It prints a number as a fraction, takes the square root
  of the integer part and accepts the identity matrix alone; none of these
  is used.)
\<close>

definition rat_lib :: "(rat, string) lib" where
  "rat_lib = \<lparr>fmt_g = (\<lambda>q. fmt_d (fst (quotient_of q)) @ ''/'' @ fmt_d (snd (quotient_of q))),
     f_lt = (<), f_le = (\<le>), f_eq = (=), f_add = (+), f_sub = (-),
     f_mul = (*), f_sqrt = (\<lambda>q. of_int (int_sqrt \<lfloor>q\<rfloor>)), f_lit = of_int,
     f_int = toward_zero,
     IsIdentity = (\<lambda>m. mA m = 1 \<and> mB m = 0 \<and> mC m = 0 \<and> mD m = 0 \<and> mE m = 1 \<and> mF m = 0),
     png_Encode = Some, base64_EncodeToString = (\<lambda>s. s)\<rparr>"

section \<open>Properties\<close>

subsection \<open>Path data\<close>

lemma pathToD_append: "pathToD l (p @ q) = pathToD l p @ pathToD l q"
  by (induction p) auto

text \<open>
  C1 (as the code has it). \<^verbatim>\<open>pathToD\<close> has no error result and its type
  switch has no default branch: an element of none of the five kinds writes
  nothing, and the path data is that of the recognized elements.
\<close>

theorem pathToD_skips_unrecognized: "pathToD l p = pathToD l (filter recognized p)"
proof (induction p)
  case Nil
  show ?case by simp
next
  case (Cons e p)
  then show ?case by (cases e) simp_all
qed

text \<open>
  C1 (as claimed) fails: a path with an element of no recognized kind is
  encoded to a path-data string, here \<open>M10 20Z\<close>.
\<close>

theorem pathToD_unsupported_counterexample:
  "\<not> recognized (OtherElement :: int PathElement) \<and>
   pathToD int_lib [MoveTo \<lparr>pX = 10, pY = 20\<rparr>, OtherElement, Close] = ''M10 20Z''"
  by (simp add: int_lib_def fmt_d_def dec_nat.simps digit_char_def)

text \<open>
  C2. The path move(10,20), line(30,40), quad(50,60,70,80),
  cubic(90,100,110,120,130,140), close is encoded as
  \<open>M10 20L30 40Q50 60 70 80C90 100 110 120 130 140Z\<close>, provided \<^verbatim>\<open>%g\<close>
  prints each of the fourteen coordinates as the plain decimal integer,
  which is what Go does for them.
\<close>

theorem pathToD_known_segments:
  assumes "\<forall>n \<in> {10, 20, 30, 40, 50, 60, 70, 80, 90, 100, 110, 120, 130, 140}.
             fmt_g l (f_lit l n) = fmt_d n"
  shows "pathToD l [MoveTo (pt l 10 20), LineTo (pt l 30 40),
                    QuadTo (pt l 50 60) (pt l 70 80),
                    CubicTo (pt l 90 100) (pt l 110 120) (pt l 130 140), Close]
         = ''M10 20L30 40Q50 60 70 80C90 100 110 120 130 140Z''"
  using assms by (simp add: pt_def fmt_d_def dec_nat.simps digit_char_def)

theorem pathToD_known_segments_witness:
  "fmt_g int_lib (f_lit int_lib 10) = ''10'' \<and> fmt_g int_lib (f_lit int_lib 140) = ''140'' \<and>
   pathToD int_lib [MoveTo (pt int_lib 10 20), LineTo (pt int_lib 30 40),
                    QuadTo (pt int_lib 50 60) (pt int_lib 70 80),
                    CubicTo (pt int_lib 90 100) (pt int_lib 110 120) (pt int_lib 130 140),
                    Close]
     = ''M10 20L30 40Q50 60 70 80C90 100 110 120 130 140Z''"
proof -
  have h: "\<forall>n \<in> {10, 20, 30, 40, 50, 60, 70, 80, 90, 100, 110, 120, 130, 140}.
             fmt_g int_lib (f_lit int_lib n) = fmt_d n"
    by (simp add: int_lib_def)
  have "fmt_g int_lib (f_lit int_lib 10) = ''10''"
    and "fmt_g int_lib (f_lit int_lib 140) = ''140''"
    by (simp_all add: int_lib_def fmt_d_def dec_nat.simps digit_char_def)
  then show ?thesis
    using pathToD_known_segments [OF h] by blast
qed

subsection \<open>Save and restore\<close>

lemma Restore_empty: "stateStack b = [] \<Longrightarrow> Restore b = b"
  by (simp add: Restore_def)

text \<open>
  C3. With an empty state stack, any number of calls of \<^verbatim>\<open>Restore\<close> leaves
  the backend as it is: transform, clip reference, content buffer, group
  depth and every other field.
\<close>

theorem Restore_empty_stack_noop: "stateStack b = [] \<Longrightarrow> (Restore ^^ n) b = b"
  by (induction n) (simp_all add: Restore_empty)

theorem Restore_empty_stack_noop_witness:
  "stateStack (Restore (Save (Begin int_lib 800 600 (NewBackend int_lib)))) = [] \<and>
   (Restore ^^ 3) (Restore (Save (Begin int_lib 800 600 (NewBackend int_lib))))
     = Restore (Save (Begin int_lib 800 600 (NewBackend int_lib)))"
proof -
  have h: "stateStack (Restore (Save (Begin int_lib 800 600 (NewBackend int_lib)))) = []"
    by (simp add: Restore_def Save_def Begin_def NewBackend_def builder_WriteString_def
        wrap_int_def Let_def)
  show ?thesis
    using h Restore_empty_stack_noop [OF h, of 3] by blast
qed

subsection \<open>Serialisation\<close>

lemma wrap_int_add_left: "wrap_int (wrap_int a + b) = wrap_int (a + b)"
proof -
  define K :: int where "K = 2 ^ 63"
  define M :: int where "M = 2 ^ 64"
  have "(((a + K) mod M - K) + b + K) mod M = ((a + K) mod M + b) mod M"
    by (simp add: algebra_simps)
  also have "\<dots> = (a + K + b) mod M"
    by (rule mod_add_left_eq)
  also have "\<dots> = (a + b + K) mod M"
    by (simp add: algebra_simps)
  finally show ?thesis
    unfolding wrap_int_def K_def M_def by simp
qed

lemma write_chunk_buffer:
  "write_chunk buffer_Write p w tot = Inr (w @ p, wrap_int (tot + int (length p)))"
  by (simp add: write_chunk_def buffer_Write_def)

lemma close_groups_buffer_aux:
  "nat (groupDepth b - i) = k \<Longrightarrow>
   close_groups buffer_Write b i w tot =
     Inr (w @ concat (replicate k ''</g>''),
          if k = 0 then tot else wrap_int (tot + 4 * int k))"
proof (induction k arbitrary: i w tot)
  case 0
  then show ?case by (subst close_groups.simps) simp
next
  case (Suc k)
  then have lt: "i < groupDepth b" and k: "nat (groupDepth b - (i + 1)) = k"
    by simp_all
  have step: "close_groups buffer_Write b i w tot =
      close_groups buffer_Write b (i + 1) (w @ ''</g>'') (wrap_int (tot + 4))"
    using lt by (subst close_groups.simps) (simp add: write_chunk_buffer)
  have t: "tot + 4 + 4 * int k = tot + 4 * int (Suc k)"
    by simp
  show ?case
  proof (cases "k = 0")
    case True
    then show ?thesis
      unfolding step Suc.IH [OF k] by simp
  next
    case False
    then show ?thesis
      unfolding step Suc.IH [OF k] by (simp add: wrap_int_add_left t del: of_nat_Suc)
  qed
qed

lemma close_groups_buffer:
  "close_groups buffer_Write b i w tot =
     Inr (w @ concat (replicate (nat (groupDepth b - i)) ''</g>''),
          if groupDepth b \<le> i then tot else wrap_int (tot + 4 * (groupDepth b - i)))"
  by (simp add: close_groups_buffer_aux [OF refl])

subsection \<open>Text\<close>

lemma ReplaceAll_Nil: "ReplaceAll [] old new = []"
  by (subst ReplaceAll.simps) simp

lemma ReplaceAll_Cons_char:
  "ReplaceAll (x # s) [c] new = (if x = c then new else [x]) @ ReplaceAll s [c] new"
  by (subst ReplaceAll.simps) simp

lemma ReplaceAll_char:
  "ReplaceAll s [c] new = concat (map (\<lambda>x. if x = c then new else [x]) s)"
  by (induction s) (simp_all add: ReplaceAll_Nil ReplaceAll_Cons_char)

lemma ReplaceAll_char_append:
  "ReplaceAll (xs @ ys) [c] new = ReplaceAll xs [c] new @ ReplaceAll ys [c] new"
  by (simp add: ReplaceAll_char)

lemma escapeXML_Nil: "escapeXML [] = []"
  by (simp add: escapeXML_def ReplaceAll_Nil)

lemma escapeXML_Cons: "escapeXML (c # s) = xml_entity c @ escapeXML s"
proof -
  have "escapeXML (c # s) = escapeXML [c] @ escapeXML s"
    using ReplaceAll_char_append [of "[c]" s]
    by (simp add: escapeXML_def Let_def ReplaceAll_char)
  moreover have "escapeXML [c] = xml_entity c"
    by (simp add: escapeXML_def Let_def ReplaceAll_char xml_entity_def)
  ultimately show ?thesis by simp
qed

lemma escapeXML_entities: "escapeXML s = concat (map xml_entity s)"
  by (induction s) (simp_all add: escapeXML_Nil escapeXML_Cons)

lemma xml_entity_chars:
  "set (xml_entity c) \<inter> {CHR ''<'', CHR ''>'', CHR 0x22, CHR 0x27} = {}"
  by (simp add: xml_entity_def)

lemma escapeXML_chars:
  "set (escapeXML s) \<inter> {CHR ''<'', CHR ''>'', CHR 0x22, CHR 0x27} = {}"
  using xml_entity_chars by (induction s) (auto simp: escapeXML_Nil escapeXML_Cons)

lemma builder_builder_WriteString [simp]:
  "builder (builder_WriteString s b) = builder b @ [s]"
  by (simp add: builder_WriteString_def)

lemma defs_builder_WriteString [simp]:
  "defs (builder_WriteString s b) = defs b"
  by (simp add: builder_WriteString_def)

text \<open>
  C6. The text passed to \<^verbatim>\<open>DrawText\<close> enters the markup in one place only,
  the chunk \<open>escapeXML s\<close> before the closing tag. In that chunk every
  \<open>&\<close>, \<open><\<close>, \<open>>\<close>, double quote and apostrophe of the input has been replaced
  by its entity, so none of \<open><\<close>, \<open>>\<close>, double quote, apostrophe occurs in
  it. The input \<^verbatim>\<open><script>alert('xss')</script>\<close> becomes a chunk without
  \<^verbatim>\<open><script>\<close> and with \<^verbatim>\<open>&lt;script&gt;\<close>.
\<close>

theorem DrawText_escapes_text:
  \<open>(\<exists>pre d. \<forall>s. builder (DrawText l s x y face brush b) = pre @ [escapeXML s, ''</text>''] \<and>
              defs (DrawText l s x y face brush b) = d) \<and>
   escapeXML s = concat (map xml_entity s) \<and>
   set (escapeXML s) \<inter> {CHR ''<'', CHR ''>'', CHR 0x22, CHR 0x27} = {} \<and>
   escapeXML (''<script>alert('' @ [CHR 0x27] @ ''xss'' @ [CHR 0x27] @ '')</script>'')
     = ''&lt;script&gt;alert(&apos;xss&apos;)&lt;/script&gt;'' \<and>
   \<not> sublist ''<script>''
       (escapeXML (''<script>alert('' @ [CHR 0x27] @ ''xss'' @ [CHR 0x27] @ '')</script>'')) \<and>
   sublist ''&lt;script&gt;''
     (escapeXML (''<script>alert('' @ [CHR 0x27] @ ''xss'' @ [CHR 0x27] @ '')</script>''))\<close>
proof -
  let ?b7 = \<open>builder_WriteString ''>'' (writeFill l brush (builder_WriteString
     ('' font-size="'' @ fmt_g l (case face of None \<Rightarrow> f_lit l 12
             | Some fc \<Rightarrow>
                 (let fs = face_Size fc
                  in if f_le l fs (f_lit l 0)
                     then (let lh = face_LineHeight fc
                           in if f_le l lh (f_lit l 0) then f_lit l 12 else lh)
                     else fs)) @ ''"'')
     (builder_WriteString ('' x="'' @ fmt_g l x @ ''" y="'' @ fmt_g l y @ ''"'')
        (writeClip (writeTransform l (builder_WriteString ''<text'' b))))))\<close>
  have 1: "\<forall>s. builder (DrawText l s x y face brush b) = builder ?b7 @ [escapeXML s, ''</text>''] \<and>
              defs (DrawText l s x y face brush b) = defs ?b7"
    by (simp add: DrawText_def Let_def)
  have 2: "escapeXML (''<script>alert('' @ [CHR 0x27] @ ''xss'' @ [CHR 0x27] @ '')</script>'')
     = ''&lt;script&gt;alert(&apos;xss&apos;)&lt;/script&gt;''"
    by (simp add: escapeXML_entities xml_entity_def)
  have 3: "\<not> sublist ''<script>'' ''&lt;script&gt;alert(&apos;xss&apos;)&lt;/script&gt;''"
    by code_simp
  have 4: "sublist ''&lt;script&gt;'' ''&lt;script&gt;alert(&apos;xss&apos;)&lt;/script&gt;''"
    by code_simp
  from 1 have "\<exists>pre d. \<forall>s. builder (DrawText l s x y face brush b) = pre @ [escapeXML s, ''</text>''] \<and>
              defs (DrawText l s x y face brush b) = d"
    by blast
  with 2 3 4 show ?thesis
    using escapeXML_entities escapeXML_chars by (simp del: append.simps)
qed

subsection \<open>Fills\<close>

text \<open>
  C7. For a sweep gradient, \<^verbatim>\<open>writeFill\<close> writes the colour of the first
  stop as the fill, and \<open>black\<close> (with no opacity attribute) when there is
  no stop; it has no error result. When the colour of the first stop is
  opaque (its alpha is not below 1), the outcome is that of a solid brush of
  that colour.
\<close>

theorem writeFill_sweep_fallback:
  \<open>writeFill l (BrSweep \<lparr>swStops = stop # stops\<rparr>) b
     = builder_WriteString ('' fill="'' @ colorToCSS l (Color stop) @ ''"'') b \<and>
   writeFill l (BrSweep \<lparr>swStops = []\<rparr>) b = builder_WriteString '' fill="black"'' b \<and>
   (\<not> f_lt l (cA (Color stop)) (f_lit l 1) \<longrightarrow>
      writeFill l (BrSweep \<lparr>swStops = stop # stops\<rparr>) b = writeFill l (BrSolid (Color stop)) b)\<close>
  by (simp add: writeFill_def Let_def)

theorem writeFill_sweep_fallback_witness:
  \<open>\<not> f_lt int_lib (cA (Color \<lparr>Offset = 0, Color = \<lparr>cR = 1, cG = 0, cB = 0, cA = 1\<rparr>\<rparr>))
       (f_lit int_lib 1) \<and>
   writeFill int_lib
     (BrSweep \<lparr>swStops = [\<lparr>Offset = 0, Color = \<lparr>cR = 1, cG = 0, cB = 0, cA = 1\<rparr>\<rparr>,
                          \<lparr>Offset = 1, Color = \<lparr>cR = 0, cG = 1, cB = 0, cA = 1\<rparr>\<rparr>]\<rparr>)
     (NewBackend int_lib)
   = writeFill int_lib (BrSolid \<lparr>cR = 1, cG = 0, cB = 0, cA = 1\<rparr>) (NewBackend int_lib) \<and>
   builder (writeFill int_lib (BrSolid \<lparr>cR = 1, cG = 0, cB = 0, cA = 1\<rparr>) (NewBackend int_lib))
   = ['' fill="rgb(255,0,0)"'']\<close>
proof -
  have h: "\<not> f_lt int_lib (cA (Color \<lparr>Offset = 0, Color = \<lparr>cR = 1, cG = 0, cB = 0, cA = 1\<rparr>\<rparr>))
             (f_lit int_lib 1)"
    by (simp add: int_lib_def)
  have e: \<open>builder (writeFill int_lib (BrSolid \<lparr>cR = 1, cG = 0, cB = 0, cA = 1\<rparr>)
             (NewBackend int_lib)) = ['' fill="rgb(255,0,0)"'']\<close>
    by (simp add: writeFill_def colorToCSS_def int_lib_def NewBackend_def fmt_d_def
        dec_nat.simps digit_char_def Let_def)
  have a: "writeFill int_lib
     (BrSweep \<lparr>swStops = [\<lparr>Offset = 0, Color = \<lparr>cR = 1, cG = 0, cB = 0, cA = 1\<rparr>\<rparr>,
                          \<lparr>Offset = 1, Color = \<lparr>cR = 0, cG = 1, cB = 0, cA = 1\<rparr>\<rparr>]\<rparr>)
     (NewBackend int_lib)
   = writeFill int_lib (BrSolid \<lparr>cR = 1, cG = 0, cB = 0, cA = 1\<rparr>) (NewBackend int_lib)"
    using writeFill_sweep_fallback
      [of int_lib "\<lparr>Offset = 0, Color = \<lparr>cR = 1, cG = 0, cB = 0, cA = 1\<rparr>\<rparr>"
          "[\<lparr>Offset = 1, Color = \<lparr>cR = 0, cG = 1, cB = 0, cA = 1\<rparr>\<rparr>]" "NewBackend int_lib",
        THEN conjunct2, THEN conjunct2, THEN mp, OF h]
    by simp
  from h a e show ?thesis
    by (intro conjI)
qed

subsection \<open>Resource ids: decimal digits\<close>

lemma digit_char_in: "d < 10 \<Longrightarrow> digit_char d \<in> set ''0123456789''"
  by (simp add: digit_char_def)

lemma digit_char_in': "digit_char d \<in> set ''0123456789''"
  by (simp add: digit_char_def)

lemma digit_val_digit_char: "d < 10 \<Longrightarrow> digit_val (digit_char d) = d"
  by (simp add: digit_char_def digit_val_def)

lemma dec_nat_digits: "set (dec_nat n) \<subseteq> set ''0123456789''"
proof (induction n rule: dec_nat.induct)
  case (1 n)
  show ?case
  proof (cases "n < 10")
    case True
    then show ?thesis
      using digit_char_in' [of n] by (subst dec_nat.simps) simp
  next
    case False
    then show ?thesis
      using 1 digit_char_in' [of "n mod 10"] by (subst dec_nat.simps) simp
  qed
qed

lemma dec_nat_not_Nil: "dec_nat n \<noteq> []"
  by (subst dec_nat.simps) simp

lemma undec_snoc: "undec (s @ [c]) = 10 * undec s + digit_val c"
  by (simp add: undec_def)

lemma undec_dec_nat: "undec (dec_nat n) = n"
proof (induction n rule: dec_nat.induct)
  case (1 n)
  show ?case
  proof (cases "n < 10")
    case True
    then show ?thesis
      by (subst dec_nat.simps) (simp add: undec_def digit_val_digit_char)
  next
    case False
    then have "undec (dec_nat n) = 10 * undec (dec_nat (n div 10)) + digit_val (digit_char (n mod 10))"
      by (subst dec_nat.simps) (simp add: undec_snoc)
    also have "\<dots> = 10 * (n div 10) + n mod 10"
      using False 1 by (simp add: digit_val_digit_char)
    finally show ?thesis by simp
  qed
qed


lemma fmt_d_nonneg: "0 \<le> n \<Longrightarrow> fmt_d n = dec_nat (nat n)"
  by (simp add: fmt_d_def)

lemma dec_nat_no_quote: "CHR 0x22 \<notin> set (dec_nat n)" "CHR '')'' \<notin> set (dec_nat n)"
proof -
  show "CHR 0x22 \<notin> set (dec_nat n)"
  proof
    assume "CHR 0x22 \<in> set (dec_nat n)"
    with dec_nat_digits have "CHR 0x22 \<in> set ''0123456789''" by blast
    then show False by simp
  qed
  show "CHR '')'' \<notin> set (dec_nat n)"
  proof
    assume "CHR '')'' \<in> set (dec_nat n)"
    with dec_nat_digits have "CHR '')'' \<in> set ''0123456789''" by blast
    then show False by simp
  qed
qed

lemma fmt_d_no_quote: "CHR 0x22 \<notin> set (fmt_d n)" "CHR '')'' \<notin> set (fmt_d n)"
  by (simp_all add: fmt_d_def dec_nat_no_quote)

lemma fmt_d_not_Nil: "fmt_d n \<noteq> []"
  by (simp add: fmt_d_def dec_nat_not_Nil)

lemma dropWhile_digits:
  "s \<noteq> [] \<Longrightarrow> set s \<subseteq> set ''0123456789'' \<Longrightarrow>
   dropWhile (\<lambda>c. c \<notin> set ''0123456789'') s = s"
proof (cases s)
  case Nil
  assume "s \<noteq> []"
  with Nil show ?thesis by simp
next
  case (Cons c cs)
  assume "set s \<subseteq> set ''0123456789''"
  with Cons have "c \<in> set ''0123456789''"
    using list.set_intros(1) [of c cs] by blast
  with Cons show ?thesis by (simp del: set_simps)
qed

lemma id_num_pfx:
  assumes "pfx \<in> {''clip'', ''lg'', ''rg''}" and "0 \<le> n"
  shows "id_num (pfx @ fmt_d n) = nat n"
proof -
  let ?P = "\<lambda>c. c \<notin> set ''0123456789''"
  have d: "dropWhile ?P (dec_nat (nat n)) = dec_nat (nat n)"
    by (rule dropWhile_digits [OF dec_nat_not_Nil dec_nat_digits])
  from assms(1) consider "pfx = ''clip''" | "pfx = ''lg''" | "pfx = ''rg''" by blast
  then have "dropWhile ?P (pfx @ dec_nat (nat n)) = dropWhile ?P (dec_nat (nat n))"
    by cases simp_all
  with d show ?thesis
    using assms(2) by (simp add: id_num_def fmt_d_nonneg undec_dec_nat del: set_simps)
qed

lemma id_ok_pfx:
  assumes "pfx \<in> {''clip'', ''lg'', ''rg''}"
  shows "id_ok (pfx @ fmt_d n)"
proof -
  from assms consider "pfx = ''clip''" | "pfx = ''lg''" | "pfx = ''rg''" by blast
  then show ?thesis
    by cases (simp_all add: id_ok_def fmt_d_no_quote)
qed

lemma id_ok_Nil: "id_ok ''''"
  by (simp add: id_ok_def)

lemma pfx_id_not_Nil: "pfx @ fmt_d n \<noteq> ''''"
  by (simp add: fmt_d_not_Nil)

subsection \<open>Effects of the calls on the buffers\<close>

lemma appends_refl: "appends b b [] []"
  by (auto simp: appends_def intro: exI [of _ "idCounter b"])

lemma appends_trans:
  assumes "appends b b' X Y" and "appends b' b'' X' Y'"
  shows "appends b b'' (X @ X') (Y @ Y')"
proof -
  from assms(1) obtain n where 1: "b' = b\<lparr>builder := builder b @ X, defs := defs b @ Y, idCounter := n\<rparr>"
    by (auto simp: appends_def)
  from assms(2) obtain m where 2: "b'' = b'\<lparr>builder := builder b' @ X', defs := defs b' @ Y', idCounter := m\<rparr>"
    by (auto simp: appends_def)
  show ?thesis
    unfolding appends_def by (rule exI [of _ m]) (simp add: 1 2)
qed

lemma appends_builder: "appends b (builder_WriteString s b) [s] []"
  by (auto simp: appends_def builder_WriteString_def intro: exI [of _ "idCounter b"])

lemma appends_defs: "appends b (defs_WriteString s b) [] [s]"
  by (auto simp: appends_def defs_WriteString_def intro: exI [of _ "idCounter b"])

lemma appends_fields:
  assumes "appends b b' X Y"
  shows "builder b' = builder b @ X" and "defs b' = defs b @ Y"
    and "groupDepth b' = groupDepth b" and "stateStack b' = stateStack b"
    and "currentClipID b' = currentClipID b" and "currentTransform b' = currentTransform b"
    and "width b' = width b" and "height b' = height b"
  using assms by (auto simp: appends_def)

lemma map_filter_append:
  "List.map_filter f (xs @ ys) = List.map_filter f xs @ List.map_filter f ys"
  by (simp add: List.map_filter_def)

lemma ids_referenced_simps:
  "ids_referenced [] = []"
  "ids_referenced (xs @ ys) = ids_referenced xs @ ids_referenced ys"
  "ids_referenced (c # cs) = (case ref_id c of None \<Rightarrow> ids_referenced cs | Some i \<Rightarrow> i # ids_referenced cs)"
  by (simp_all add: ids_referenced_def map_filter_append List.map_filter_simps
      split: option.splits)

lemma ids_defined_simps:
  "ids_defined [] = []"
  "ids_defined (xs @ ys) = ids_defined xs @ ids_defined ys"
  "ids_defined (c # cs) = (case def_id c of None \<Rightarrow> ids_defined cs | Some i \<Rightarrow> i # ids_defined cs)"
  by (simp_all add: ids_defined_def map_filter_append List.map_filter_simps
      split: option.splits)

lemma plain_refl: "plain b b"
  unfolding plain_def
  by (rule exI [of _ "[]"]) (simp add: appends_refl ids_referenced_simps neutral_def)

lemma plain_clip_eq: "plain b b' \<Longrightarrow> clip_ids b' = clip_ids b"
  by (auto simp: plain_def clip_ids_def dest: appends_fields(5))

lemma plain_trans:
  assumes "plain b b'" and "plain b' b''"
  shows "plain b b''"
proof -
  from assms(1) obtain X where X: "appends b b' X []" "idCounter b' = idCounter b"
      "set (ids_referenced X) \<subseteq> clip_ids b" "neutral X"
    by (auto simp: plain_def)
  from assms(2) obtain X' where X': "appends b' b'' X' []" "idCounter b'' = idCounter b'"
      "set (ids_referenced X') \<subseteq> clip_ids b'" "neutral X'"
    by (auto simp: plain_def)
  have "appends b b'' (X @ X') ([] @ [])"
    by (rule appends_trans [OF X(1) X'(1)])
  moreover have "set (ids_referenced (X @ X')) \<subseteq> clip_ids b"
    using X(3) X'(3) plain_clip_eq [OF assms(1)] by (simp add: ids_referenced_simps)
  moreover have "neutral (X @ X')"
    using X(4) X'(4) by (simp add: neutral_def)
  ultimately show ?thesis
    unfolding plain_def using X(2) X'(2) by (intro exI [of _ "X @ X'"]) simp
qed

lemma WriteString_fields [simp]:
  "idCounter (builder_WriteString s b) = idCounter b"
  "groupDepth (builder_WriteString s b) = groupDepth b"
  "stateStack (builder_WriteString s b) = stateStack b"
  "currentClipID (builder_WriteString s b) = currentClipID b"
  "currentTransform (builder_WriteString s b) = currentTransform b"
  "idCounter (defs_WriteString s b) = idCounter b"
  "groupDepth (defs_WriteString s b) = groupDepth b"
  "stateStack (defs_WriteString s b) = stateStack b"
  "currentClipID (defs_WriteString s b) = currentClipID b"
  "currentTransform (defs_WriteString s b) = currentTransform b"
  "builder (defs_WriteString s b) = builder b"
  "defs (defs_WriteString s b) = defs b @ [s]"
  by (simp_all add: builder_WriteString_def defs_WriteString_def)

lemma plain_write_here: "quiet s \<Longrightarrow> plain b (builder_WriteString s b)"
  unfolding plain_def
  by (rule exI [of _ "[s]"])
     (auto simp add: appends_builder ids_referenced_simps quiet_def neutral_def)

lemma plain_write: "plain b b' \<Longrightarrow> quiet s \<Longrightarrow> plain b (builder_WriteString s b')"
  by (rule plain_trans [OF _ plain_write_here])

subsection \<open>Recognising references and definitions\<close>

lemma takeWhile_until:
  "c \<notin> set xs \<Longrightarrow> takeWhile (\<lambda>x. x \<noteq> c) (xs @ c # ys) = xs"
  by (induction xs) auto

lemma ref_id_fill_url:
  \<open>CHR '')'' \<notin> set i \<Longrightarrow> ref_id ('' fill="url(#'' @ i @ '')"'') = Some i\<close>
  using takeWhile_until [of "CHR '')''" i "[CHR 0x22]"] by (simp add: ref_id_def)

lemma ref_id_stroke_url:
  \<open>CHR '')'' \<notin> set i \<Longrightarrow> ref_id ('' stroke="url(#'' @ i @ '')"'') = Some i\<close>
  using takeWhile_until [of "CHR '')''" i "[CHR 0x22]"] by (simp add: ref_id_def)

lemma ref_id_clip_url:
  \<open>CHR '')'' \<notin> set i \<Longrightarrow> ref_id ('' clip-path="url(#'' @ i @ '')"'') = Some i\<close>
  using takeWhile_until [of "CHR '')''" i "[CHR 0x22]"] by (simp add: ref_id_def)

lemma ref_id_needs_quote: "ref_id c = Some i \<Longrightarrow> CHR 0x22 \<in> set c"
proof -
  assume r: "ref_id c = Some i"
  have q: "\<And>p. prefix p c \<Longrightarrow> CHR 0x22 \<in> set p \<Longrightarrow> CHR 0x22 \<in> set c"
    using set_mono_prefix by blast
  from r consider \<open>prefix '' fill="url(#'' c\<close> | \<open>prefix '' stroke="url(#'' c\<close>
    | \<open>prefix '' clip-path="url(#'' c\<close>
    by (auto simp: ref_id_def split: if_splits)
  then show ?thesis
    by cases (erule q, simp)+
qed

lemma ref_id_escapeXML: "ref_id (escapeXML s) = None"
proof (cases "ref_id (escapeXML s)")
  case None
  then show ?thesis .
next
  case (Some i)
  then have "CHR 0x22 \<in> set (escapeXML s)" by (rule ref_id_needs_quote)
  with escapeXML_chars [of s] show ?thesis by auto
qed

lemma quiet_escapeXML: "quiet (escapeXML s)"
proof -
  have "CHR ''<'' \<notin> set (escapeXML s)"
    using escapeXML_chars [of s] by auto
  then have "escapeXML s \<noteq> ''<g>''" and "escapeXML s \<noteq> ''</g>''"
    by auto
  then show ?thesis
    by (simp add: quiet_def ref_id_escapeXML)
qed

lemma def_id_clipPath:
  \<open>CHR 0x22 \<notin> set i \<Longrightarrow> def_id (''<clipPath id="'' @ i @ ''">'') = Some i\<close>
  using takeWhile_until [of "CHR 0x22" i "''>''"] by (simp add: def_id_def)

lemma def_id_linearGradient:
  \<open>CHR 0x22 \<notin> set i \<Longrightarrow> def_id (''<linearGradient id="'' @ i @ CHR 0x22 # rest) = Some i\<close>
  using takeWhile_until [of "CHR 0x22" i rest] by (simp add: def_id_def)

lemma def_id_radialGradient:
  \<open>CHR 0x22 \<notin> set i \<Longrightarrow> def_id (''<radialGradient id="'' @ i @ CHR 0x22 # rest) = Some i\<close>
  using takeWhile_until [of "CHR 0x22" i rest] by (simp add: def_id_def)

lemma ids_defined_stop_chunks: "ids_defined (stop_chunks l stops) = []"
  by (induction stops) (simp_all add: ids_defined_simps def_id_def)

lemma ids_defined_spread_chunks: "ids_defined (spread_chunks e) = []"
  by (cases e) (simp_all add: spread_chunks_def ids_defined_simps def_id_def)

lemma ids_defined_linearGradient_chunks:
  "CHR 0x22 \<notin> set i \<Longrightarrow> ids_defined (linearGradient_chunks l br i) = [i]"
  by (simp add: linearGradient_chunks_def ids_defined_simps takeWhile_until
      ids_defined_stop_chunks ids_defined_spread_chunks def_id_def)

lemma ids_defined_radialGradient_chunks:
  "CHR 0x22 \<notin> set i \<Longrightarrow> ids_defined (radialGradient_chunks l br i) = [i]"
  by (simp add: radialGradient_chunks_def ids_defined_simps takeWhile_until
      ids_defined_stop_chunks ids_defined_spread_chunks def_id_def)

lemma String_append: "String (xs @ ys) = String xs @ String ys"
  by (simp add: String_def)

lemma length_linearGradient_chunks: "2 \<le> length (String (linearGradient_chunks l br i))"
  by (simp add: linearGradient_chunks_def String_def)

lemma length_radialGradient_chunks: "2 \<le> length (String (radialGradient_chunks l br i))"
  by (simp add: radialGradient_chunks_def String_def)

subsection \<open>The gradient definitions\<close>

lemma write_stops_eq: "write_stops l stops b = b\<lparr>defs := defs b @ stop_chunks l stops\<rparr>"
  by (induction stops arbitrary: b) (simp_all add: Let_def defs_WriteString_def)

lemma nextID_eq:
  "nextID pfx b = (pfx @ fmt_d (wrap_int (idCounter b + 1)),
                   b\<lparr>idCounter := wrap_int (idCounter b + 1)\<rparr>)"
  by (simp add: nextID_def Let_def)

lemma addLinearGradient_eq:
  "addLinearGradient l br b =
     (''lg'' @ fmt_d (wrap_int (idCounter b + 1)),
      b\<lparr>idCounter := wrap_int (idCounter b + 1),
        defs := defs b @ linearGradient_chunks l br (''lg'' @ fmt_d (wrap_int (idCounter b + 1)))\<rparr>)"
  by (cases "lgExtend br")
     (simp_all add: addLinearGradient_def nextID_eq write_stops_eq linearGradient_chunks_def
        gradient_length_def spread_chunks_def defs_WriteString_def Let_def)

lemma addRadialGradient_eq:
  "addRadialGradient l br b =
     (''rg'' @ fmt_d (wrap_int (idCounter b + 1)),
      b\<lparr>idCounter := wrap_int (idCounter b + 1),
        defs := defs b @ radialGradient_chunks l br (''rg'' @ fmt_d (wrap_int (idCounter b + 1)))\<rparr>)"
  by (cases "rgExtend br")
     (simp_all add: addRadialGradient_def nextID_eq write_stops_eq radialGradient_chunks_def
        spread_chunks_def defs_WriteString_def Let_def)

subsection \<open>Content written by the attribute encoders\<close>

lemma plain_appends: "plain b b' \<Longrightarrow> \<exists>X. appends b b' X []"
  by (auto simp: plain_def)

lemma plain_fields:
  assumes "plain b b'"
  shows "defs b' = defs b" and "idCounter b' = idCounter b"
    and "groupDepth b' = groupDepth b" and "stateStack b' = stateStack b"
    and "currentClipID b' = currentClipID b" and "currentTransform b' = currentTransform b"
    and "width b' = width b" and "height b' = height b"
  using assms appends_fields [of b b' _ "[]"] by (auto simp: plain_def)

lemma plain_writeTransform: "plain b b' \<Longrightarrow> plain b (writeTransform l b')"
  by (simp add: writeTransform_def Let_def plain_write quiet_def ref_id_def)

lemma plain_writeClip:
  assumes "plain b b'" and "id_ok (currentClipID b)"
  shows "plain b (writeClip b')"
proof (cases "currentClipID b' = ''''")
  case True
  with assms(1) show ?thesis by (simp add: writeClip_def)
next
  case False
  let ?c = \<open>'' clip-path="url(#'' @ currentClipID b' @ '')"''\<close>
  have c: "currentClipID b' = currentClipID b"
    using assms(1) by (rule plain_fields)
  have "ref_id ?c = Some (currentClipID b')"
    using assms(2) c by (intro ref_id_clip_url) (simp add: id_ok_def)
  then have "plain b' (builder_WriteString ?c b')"
    unfolding plain_def using False
    by (intro exI [of _ "[?c]"])
       (simp add: appends_builder ids_referenced_simps clip_ids_def neutral_def)
  with assms(1) have "plain b (builder_WriteString ?c b')"
    by (rule plain_trans)
  with False show ?thesis by (simp add: writeClip_def)
qed

lemma paints_plain:
  assumes "plain b b'"
  shows "paints b b'"
proof -
  from assms obtain X where X: "appends b b' X []" "idCounter b' = idCounter b"
      "set (ids_referenced X) \<subseteq> clip_ids b" "neutral X"
    by (auto simp: plain_def)
  show ?thesis
    unfolding paints_def
    by (rule exI [of _ X], rule exI [of _ "[]"]) (simp add: X ids_defined_simps)
qed

lemma paints_fields:
  assumes "paints b b'"
  shows "groupDepth b' = groupDepth b" and "stateStack b' = stateStack b"
    and "currentClipID b' = currentClipID b" and "currentTransform b' = currentTransform b"
    and "width b' = width b" and "height b' = height b"
  using assms appends_fields [of b b'] by (auto simp: paints_def)

lemma paints_then_plain:
  assumes "paints b b'" and "plain b' b''"
  shows "paints b b''"
proof -
  from assms(2) obtain X' where X': "appends b' b'' X' []" "idCounter b'' = idCounter b'"
      "set (ids_referenced X') \<subseteq> clip_ids b'" "neutral X'"
    by (auto simp: plain_def)
  have c: "clip_ids b' = clip_ids b"
    using paints_fields(3) [OF assms(1)] by (simp add: clip_ids_def)
  from assms(1) obtain X Y where XY: "appends b b' X Y" and nX: "neutral X" and
    d: "(ids_defined Y = [] \<and> idCounter b' = idCounter b \<and>
          set (ids_referenced X) \<subseteq> clip_ids b) \<or>
         (\<exists>pfx. pfx \<in> {''clip'', ''lg'', ''rg''} \<and>
            ids_defined Y = [pfx @ fmt_d (idCounter b')] \<and>
            idCounter b' = wrap_int (idCounter b + 1) \<and>
            2 \<le> length (String Y) \<and>
            set (ids_referenced X) \<subseteq> insert (pfx @ fmt_d (idCounter b')) (clip_ids b))"
    unfolding paints_def by blast
  have a: "appends b b'' (X @ X') Y \<and> neutral (X @ X')"
    using appends_trans [OF XY X'(1)] nX X'(4) by (simp add: neutral_def)
  from d X'(2) X'(3) c have
    "(ids_defined Y = [] \<and> idCounter b'' = idCounter b \<and>
          set (ids_referenced (X @ X')) \<subseteq> clip_ids b) \<or>
         (\<exists>pfx. pfx \<in> {''clip'', ''lg'', ''rg''} \<and>
            ids_defined Y = [pfx @ fmt_d (idCounter b'')] \<and>
            idCounter b'' = wrap_int (idCounter b + 1) \<and>
            2 \<le> length (String Y) \<and>
            set (ids_referenced (X @ X')) \<subseteq> insert (pfx @ fmt_d (idCounter b'')) (clip_ids b))"
    by (auto simp: ids_referenced_simps)
  with a show ?thesis
    unfolding paints_def by blast
qed

lemma paints_write: "paints b b' \<Longrightarrow> quiet s \<Longrightarrow> paints b (builder_WriteString s b')"
  by (rule paints_then_plain [OF _ plain_write_here])

text \<open>A gradient is defined under the next id and the attribute refers to it.\<close>

lemma paints_gradient:
  assumes "plain b b'" and "pfx \<in> {''clip'', ''lg'', ''rg''}"
    and "ids_defined Y = [pfx @ fmt_d (wrap_int (idCounter b' + 1))]"
    and "2 \<le> length (String Y)"
    and "ref_id s = Some (pfx @ fmt_d (wrap_int (idCounter b' + 1)))"
  shows "paints b (builder_WriteString s
           (b'\<lparr>idCounter := wrap_int (idCounter b' + 1), defs := defs b' @ Y\<rparr>))"
proof -
  from assms(1) obtain X where X: "appends b b' X []" "idCounter b' = idCounter b"
      "set (ids_referenced X) \<subseteq> clip_ids b" "neutral X"
    by (auto simp: plain_def)
  have "CHR 0x22 \<in> set s"
    using assms(5) by (rule ref_id_needs_quote)
  then have "s \<noteq> ''<g>''" and "s \<noteq> ''</g>''"
    by auto
  with X(4) have n: "neutral (X @ [s])"
    by (simp add: neutral_def)
  let ?b1 = "b'\<lparr>idCounter := wrap_int (idCounter b' + 1), defs := defs b' @ Y\<rparr>"
  have "appends b' ?b1 [] Y"
    unfolding appends_def by (rule exI [of _ "wrap_int (idCounter b' + 1)"]) simp
  then have "appends b' (builder_WriteString s ?b1) ([] @ [s]) (Y @ [])"
    by (rule appends_trans [OF _ appends_builder])
  with X(1) have "appends b (builder_WriteString s ?b1) (X @ [] @ [s]) ([] @ Y @ [])"
    by (rule appends_trans)
  then have a: "appends b (builder_WriteString s ?b1) (X @ [s]) Y"
    by simp
  show ?thesis
    unfolding paints_def
    apply (rule exI [of _ "X @ [s]"], rule exI [of _ Y], rule conjI [OF a], rule conjI [OF n],
        rule disjI2)
    apply (rule exI [of _ pfx])
    using assms(2-5) X(2,3) by (auto simp: ids_referenced_simps)
qed

lemma paints_writeFill:
  assumes "plain b b'"
  shows "paints b (writeFill l brush b')"
proof (cases brush)
  case (BrSolid c)
  have \<open>quiet ('' fill="'' @ colorToCSS l c @ ''"'')\<close>
    and \<open>quiet ('' fill-opacity="'' @ fmt_g l (cA c) @ ''"'')\<close>
    by (simp_all add: quiet_def ref_id_def colorToCSS_def Let_def)
  with assms BrSolid show ?thesis
    by (simp add: writeFill_def Let_def paints_plain plain_write)
next
  case (BrLinear br)
  let ?i = "''lg'' @ fmt_d (wrap_int (idCounter b' + 1))"
  have \<open>paints b (builder_WriteString ('' fill="url(#'' @ ?i @ '')"'')
     (b'\<lparr>idCounter := wrap_int (idCounter b' + 1),
         defs := defs b' @ linearGradient_chunks l br ?i\<rparr>))\<close>
  proof (rule paints_gradient [OF assms])
    show \<open>ref_id ('' fill="url(#'' @ ?i @ '')"'') = Some ?i\<close>
      by (rule ref_id_fill_url) (simp add: fmt_d_no_quote)
  qed (simp_all add: ids_defined_linearGradient_chunks length_linearGradient_chunks fmt_d_no_quote)
  with BrLinear show ?thesis
    by (simp add: writeFill_def addLinearGradient_eq)
next
  case (BrRadial br)
  let ?i = "''rg'' @ fmt_d (wrap_int (idCounter b' + 1))"
  have \<open>paints b (builder_WriteString ('' fill="url(#'' @ ?i @ '')"'')
     (b'\<lparr>idCounter := wrap_int (idCounter b' + 1),
         defs := defs b' @ radialGradient_chunks l br ?i\<rparr>))\<close>
  proof (rule paints_gradient [OF assms])
    show \<open>ref_id ('' fill="url(#'' @ ?i @ '')"'') = Some ?i\<close>
      by (rule ref_id_fill_url) (simp add: fmt_d_no_quote)
  qed (simp_all add: ids_defined_radialGradient_chunks length_radialGradient_chunks fmt_d_no_quote)
  with BrRadial show ?thesis
    by (simp add: writeFill_def addRadialGradient_eq)
next
  case (BrSweep br)
  have \<open>\<And>c. quiet ('' fill="'' @ colorToCSS l c @ ''"'')\<close>
    and \<open>quiet '' fill="black"''\<close>
    by (simp_all add: quiet_def ref_id_def colorToCSS_def Let_def)
  with assms BrSweep show ?thesis
    by (simp add: writeFill_def paints_plain plain_write split: list.splits)
next
  case BrOther
  have \<open>quiet '' fill="black"''\<close>
    by (simp add: quiet_def ref_id_def)
  with assms BrOther show ?thesis
    by (simp add: writeFill_def paints_plain plain_write)
qed

lemma paints_stroke_brush:
  assumes "plain b b'"
  shows \<open>paints b
     (case brush of
        BrSolid c \<Rightarrow>
          (let b'' = builder_WriteString ('' stroke="'' @ colorToCSS l c @ ''"'') b'
           in if f_lt l (cA c) (f_lit l 1)
              then builder_WriteString ('' stroke-opacity="'' @ fmt_g l (cA c) @ ''"'') b''
              else b'')
      | BrLinear br \<Rightarrow>
          (let (gradID, b'') = addLinearGradient l br b'
           in builder_WriteString ('' stroke="url(#'' @ gradID @ '')"'') b'')
      | BrRadial br \<Rightarrow>
          (let (gradID, b'') = addRadialGradient l br b'
           in builder_WriteString ('' stroke="url(#'' @ gradID @ '')"'') b'')
      | _ \<Rightarrow> builder_WriteString '' stroke="black"'' b')\<close>
proof (cases brush)
  case (BrSolid c)
  have \<open>quiet ('' stroke="'' @ colorToCSS l c @ ''"'')\<close>
    and \<open>quiet ('' stroke-opacity="'' @ fmt_g l (cA c) @ ''"'')\<close>
    by (simp_all add: quiet_def ref_id_def colorToCSS_def Let_def)
  with assms BrSolid show ?thesis
    by (simp add: Let_def paints_plain plain_write)
next
  case (BrLinear br)
  let ?i = "''lg'' @ fmt_d (wrap_int (idCounter b' + 1))"
  have \<open>paints b (builder_WriteString ('' stroke="url(#'' @ ?i @ '')"'')
     (b'\<lparr>idCounter := wrap_int (idCounter b' + 1),
         defs := defs b' @ linearGradient_chunks l br ?i\<rparr>))\<close>
  proof (rule paints_gradient [OF assms])
    show \<open>ref_id ('' stroke="url(#'' @ ?i @ '')"'') = Some ?i\<close>
      by (rule ref_id_stroke_url) (simp add: fmt_d_no_quote)
  qed (simp_all add: ids_defined_linearGradient_chunks length_linearGradient_chunks fmt_d_no_quote)
  with BrLinear show ?thesis
    by (simp add: addLinearGradient_eq)
next
  case (BrRadial br)
  let ?i = "''rg'' @ fmt_d (wrap_int (idCounter b' + 1))"
  have \<open>paints b (builder_WriteString ('' stroke="url(#'' @ ?i @ '')"'')
     (b'\<lparr>idCounter := wrap_int (idCounter b' + 1),
         defs := defs b' @ radialGradient_chunks l br ?i\<rparr>))\<close>
  proof (rule paints_gradient [OF assms])
    show \<open>ref_id ('' stroke="url(#'' @ ?i @ '')"'') = Some ?i\<close>
      by (rule ref_id_stroke_url) (simp add: fmt_d_no_quote)
  qed (simp_all add: ids_defined_radialGradient_chunks length_radialGradient_chunks fmt_d_no_quote)
  with BrRadial show ?thesis
    by (simp add: addRadialGradient_eq)
next
  case (BrSweep br)
  have \<open>quiet '' stroke="black"''\<close>
    by (simp add: quiet_def ref_id_def)
  with assms BrSweep show ?thesis
    by (simp add: paints_plain plain_write)
next
  case BrOther
  have \<open>quiet '' stroke="black"''\<close>
    by (simp add: quiet_def ref_id_def)
  with assms BrOther show ?thesis
    by (simp add: paints_plain plain_write)
qed

lemma paints_stroke_cap:
  assumes "paints b b'"
  shows \<open>paints b
     (case cap of
        LineCapRound \<Rightarrow> builder_WriteString '' stroke-linecap="round"'' b'
      | LineCapSquare \<Rightarrow> builder_WriteString '' stroke-linecap="square"'' b'
      | LineCapButt \<Rightarrow> builder_WriteString '' stroke-linecap="butt"'' b')\<close>
  using assms by (cases cap) (simp_all add: paints_write quiet_def ref_id_def)

lemma paints_stroke_join:
  assumes "paints b b'"
  shows \<open>paints b
     (case join of
        LineJoinRound \<Rightarrow> builder_WriteString '' stroke-linejoin="round"'' b'
      | LineJoinBevel \<Rightarrow> builder_WriteString '' stroke-linejoin="bevel"'' b'
      | LineJoinMiter \<Rightarrow>
          (let b'' = builder_WriteString '' stroke-linejoin="miter"'' b'
           in if f_lt l (f_lit l 0) m
              then builder_WriteString ('' stroke-miterlimit="'' @ fmt_g l m @ ''"'') b''
              else b''))\<close>
  using assms by (cases join) (simp_all add: paints_write quiet_def ref_id_def Let_def)

lemma paints_stroke_dash:
  assumes "paints b b'"
  shows \<open>paints b
     (if 0 < length ds
         then (let dashStrs = map (fmt_g l) ds;
                   b5 = builder_WriteString
                          ('' stroke-dasharray="'' @ Join dashStrs '' '' @ ''"'') b'
               in if \<not> f_eq l off (f_lit l 0)
                  then builder_WriteString
                         ('' stroke-dashoffset="'' @ fmt_g l off @ ''"'') b5
                  else b5)
         else b')\<close>
  using assms by (simp add: paints_write quiet_def ref_id_def Let_def)

lemma paints_writeStroke:
  assumes "plain b b'"
  shows "paints b (writeStroke l brush stroke b')"
  unfolding writeStroke_def Let_def
  by (intro paints_stroke_dash [unfolded Let_def] paints_stroke_join [unfolded Let_def]
        paints_stroke_cap paints_write paints_stroke_brush [unfolded Let_def] assms)
     (simp add: quiet_def ref_id_def)

subsection \<open>Content written by the drawing calls\<close>

lemma paints_FillPath:
  assumes "id_ok (currentClipID b)"
  shows "paints b (FillPath l path brush rule b)"
proof (cases path)
  case None
  then show ?thesis by (simp add: FillPath_def paints_plain plain_refl)
next
  case (Some p)
  show ?thesis
    unfolding FillPath_def Let_def Some option.case
    by (intro paints_write paints_writeFill plain_write plain_writeClip plain_writeTransform
          plain_refl assms if_split [where P = "paints b", THEN iffD2] conjI impI)
       (simp_all add: quiet_def ref_id_def)
qed

lemma paints_StrokePath:
  assumes "id_ok (currentClipID b)"
  shows "paints b (StrokePath l path brush stroke b)"
proof (cases path)
  case None
  then show ?thesis by (simp add: StrokePath_def paints_plain plain_refl)
next
  case (Some p)
  show ?thesis
    unfolding StrokePath_def Let_def Some option.case
    by (intro paints_write paints_writeStroke plain_write plain_writeClip plain_writeTransform
          plain_refl assms)
       (simp_all add: quiet_def ref_id_def)
qed

lemma paints_FillRect:
  assumes "id_ok (currentClipID b)"
  shows "paints b (FillRect l rect brush b)"
  unfolding FillRect_def Let_def
  by (intro paints_write paints_writeFill plain_write plain_writeClip plain_writeTransform
        plain_refl assms)
     (simp_all add: quiet_def ref_id_def)

lemma paints_DrawImage:
  assumes "id_ok (currentClipID b)"
  shows "paints b (DrawImage l img src dst opts b)"
proof (cases img)
  case None
  then show ?thesis by (simp add: DrawImage_def paints_plain plain_refl)
next
  case (Some im)
  show ?thesis
  proof (cases "png_Encode l im")
    case None
    with Some show ?thesis by (simp add: DrawImage_def paints_plain plain_refl)
  next
    case (Some buf)
    show ?thesis
      unfolding DrawImage_def Let_def \<open>img = Some im\<close> Some option.case
      by (intro paints_plain plain_write plain_writeClip plain_writeTransform
            plain_refl assms if_split [where P = "plain b", THEN iffD2] conjI impI)
         (simp_all add: quiet_def ref_id_def)
  qed
qed

lemma paints_DrawText:
  assumes "id_ok (currentClipID b)"
  shows "paints b (DrawText l s x y face brush b)"
  unfolding DrawText_def Let_def
  by (intro paints_write paints_writeFill plain_write plain_writeClip plain_writeTransform
        plain_refl assms)
     (simp add: quiet_escapeXML | simp add: quiet_def ref_id_def)+

subsection \<open>Clip definitions\<close>

lemma SetClip_eq:
  "SetClip l (Some p) rule b =
     b\<lparr>idCounter := wrap_int (idCounter b + 1),
       currentClipID := ''clip'' @ fmt_d (wrap_int (idCounter b + 1)),
       defs := defs b @ clip_chunks l p rule (''clip'' @ fmt_d (wrap_int (idCounter b + 1)))\<rparr>"
  by (simp add: SetClip_def nextID_eq clip_chunks_def defs_WriteString_def Let_def)

lemma ids_defined_clip_chunks:
  "CHR 0x22 \<notin> set i \<Longrightarrow> ids_defined (clip_chunks l p rule i) = [i]"
  by (simp add: clip_chunks_def ids_defined_simps takeWhile_until def_id_def)

lemma length_clip_chunks: "2 \<le> length (String (clip_chunks l p rule i))"
  by (simp add: clip_chunks_def String_def)

subsection \<open>The invariants\<close>

lemma wrap_int_id: "- (2 ^ 63) \<le> x \<Longrightarrow> x \<le> max_int \<Longrightarrow> wrap_int x = x"
  by (simp add: wrap_int_def max_int_def)

lemma reachable_representable: "reachable l b \<Longrightarrow> representable b"
  by (induction rule: reachable.induct)
     (simp_all add: representable_def NewBackend_def String_def max_int_def)

lemma clip_ids_defined:
  "currentClipID b = '''' \<or> currentClipID b \<in> set (defined_ids b) \<Longrightarrow>
   clip_ids b \<subseteq> set (defined_ids b)"
  by (auto simp: clip_ids_def)

text \<open>The next id is new, and the counter does not wrap while the buffers fit.\<close>

lemma next_id_fresh:
  assumes inv: "ids_inv b"
    and pfx: "pfx \<in> {''clip'', ''lg'', ''rg''}"
    and len: "2 \<le> length (String Y)"
    and fit: "int (length (String (defs b @ Y))) \<le> max_int"
  shows "wrap_int (idCounter b + 1) = idCounter b + 1"
    and "pfx @ fmt_d (idCounter b + 1) \<notin> set (defined_ids b)"
    and "int (id_num (pfx @ fmt_d (idCounter b + 1))) = idCounter b + 1"
    and "2 * (idCounter b + 1) \<le> int (length (String (defs b @ Y)))"
proof -
  from inv have c0: "0 \<le> idCounter b" and c2: "2 * idCounter b \<le> int (length (String (defs b)))"
    and old: "\<forall>i \<in> set (defined_ids b). int (id_num i) \<le> idCounter b"
    by (simp_all add: ids_inv_def)
  from len show 4: "2 * (idCounter b + 1) \<le> int (length (String (defs b @ Y)))"
    using c2 by (simp add: String_append)
  with fit have "idCounter b + 1 \<le> max_int" by simp
  with c0 show "wrap_int (idCounter b + 1) = idCounter b + 1"
    by (intro wrap_int_id) simp_all
  from c0 show 3: "int (id_num (pfx @ fmt_d (idCounter b + 1))) = idCounter b + 1"
    by (simp add: id_num_pfx [OF pfx])
  show "pfx @ fmt_d (idCounter b + 1) \<notin> set (defined_ids b)"
  proof
    assume "pfx @ fmt_d (idCounter b + 1) \<in> set (defined_ids b)"
    with old have "int (id_num (pfx @ fmt_d (idCounter b + 1))) \<le> idCounter b" by blast
    with 3 show False by simp
  qed
qed

lemma ids_inv_paints:
  assumes inv: "ids_inv b" and p: "paints b b'" and fit: "representable b'"
  shows "ids_inv b'"
proof -
  from p obtain X Y where a: "appends b b' X Y" and
    d: "(ids_defined Y = [] \<and> idCounter b' = idCounter b \<and>
          set (ids_referenced X) \<subseteq> clip_ids b) \<or>
         (\<exists>pfx. pfx \<in> {''clip'', ''lg'', ''rg''} \<and>
            ids_defined Y = [pfx @ fmt_d (idCounter b')] \<and>
            idCounter b' = wrap_int (idCounter b + 1) \<and>
            2 \<le> length (String Y) \<and>
            set (ids_referenced X) \<subseteq> insert (pfx @ fmt_d (idCounter b')) (clip_ids b))"
    unfolding paints_def by blast
  note f = appends_fields [OF a]
  have D: "defined_ids b' = defined_ids b @ ids_defined Y"
    and R: "referenced_ids b' = referenced_ids b @ ids_referenced X"
    by (simp_all add: defined_ids_def referenced_ids_def f ids_defined_simps ids_referenced_simps)
  from inv have c0: "0 \<le> idCounter b" and c2: "2 * idCounter b \<le> int (length (String (defs b)))"
    and old: "\<forall>i \<in> set (defined_ids b). int (id_num i) \<le> idCounter b"
    and dist: "distinct (defined_ids b)"
    and refs: "set (referenced_ids b) \<subseteq> set (defined_ids b)"
    and cok: "id_ok (currentClipID b)"
    and cin: "currentClipID b = '''' \<or> currentClipID b \<in> set (defined_ids b)"
    and st: "\<forall>s \<in> set (stateStack b).
        id_ok (clipID s) \<and> (clipID s = '''' \<or> clipID s \<in> set (defined_ids b))"
    by (simp_all add: ids_inv_def)
  note cl = clip_ids_defined [OF cin]
  from d show ?thesis
  proof
    assume n: "ids_defined Y = [] \<and> idCounter b' = idCounter b \<and>
          set (ids_referenced X) \<subseteq> clip_ids b"
    have "2 * idCounter b \<le> int (length (String (defs b @ Y)))"
      using c2 by (simp add: String_append)
    with n c0 old dist refs cok cin st cl show ?thesis
      by (auto simp: ids_inv_def D R f)
  next
    assume "\<exists>pfx. pfx \<in> {''clip'', ''lg'', ''rg''} \<and>
            ids_defined Y = [pfx @ fmt_d (idCounter b')] \<and>
            idCounter b' = wrap_int (idCounter b + 1) \<and>
            2 \<le> length (String Y) \<and>
            set (ids_referenced X) \<subseteq> insert (pfx @ fmt_d (idCounter b')) (clip_ids b)"
    then obtain pfx where pfx: "pfx \<in> {''clip'', ''lg'', ''rg''}"
      and Y: "ids_defined Y = [pfx @ fmt_d (idCounter b')]"
      and cnt: "idCounter b' = wrap_int (idCounter b + 1)"
      and len: "2 \<le> length (String Y)"
      and rX: "set (ids_referenced X) \<subseteq> insert (pfx @ fmt_d (idCounter b')) (clip_ids b)"
      by blast
    from fit have fit': "int (length (String (defs b @ Y))) \<le> max_int"
      by (simp add: representable_def f)
    note fr = next_id_fresh [OF inv pfx len fit']
    have cnt': "idCounter b' = idCounter b + 1"
      using cnt fr(1) by simp
    let ?i = "pfx @ fmt_d (idCounter b + 1)"
    have D': "defined_ids b' = defined_ids b @ [?i]"
      using D Y cnt' by simp
    have 1: "0 \<le> idCounter b'" using c0 cnt' by simp
    have 2: "2 * idCounter b' \<le> int (length (String (defs b')))"
      using fr(4) cnt' by (simp add: f)
    have 3: "\<forall>i \<in> set (defined_ids b'). int (id_num i) \<le> idCounter b'"
      using old fr(3) cnt' by (auto simp: D')
    have 4: "distinct (defined_ids b')"
      using dist fr(2) by (simp add: D')
    have 5: "set (referenced_ids b') \<subseteq> set (defined_ids b')"
      using refs rX cl cnt' by (auto simp: R D')
    have 6: "id_ok (currentClipID b')"
      and 7: "currentClipID b' = '''' \<or> currentClipID b' \<in> set (defined_ids b')"
      using cok cin by (auto simp: f D')
    have 8: "\<forall>s \<in> set (stateStack b').
        id_ok (clipID s) \<and> (clipID s = '''' \<or> clipID s \<in> set (defined_ids b'))"
      using st by (auto simp: f D')
    from 1 2 3 4 5 6 7 8 show ?thesis
      unfolding ids_inv_def by blast
  qed
qed

lemma ids_inv_SetClip:
  assumes inv: "ids_inv b" and fit: "representable (SetClip l path rule b)"
  shows "ids_inv (SetClip l path rule b)"
proof (cases path)
  case None
  with inv show ?thesis by (simp add: SetClip_def)
next
  case (Some p)
  let ?i = "''clip'' @ fmt_d (idCounter b + 1)"
  let ?Y = "clip_chunks l p rule (''clip'' @ fmt_d (wrap_int (idCounter b + 1)))"
  from inv have c0: "0 \<le> idCounter b"
    and old: "\<forall>i \<in> set (defined_ids b). int (id_num i) \<le> idCounter b"
    and dist: "distinct (defined_ids b)"
    and refs: "set (referenced_ids b) \<subseteq> set (defined_ids b)"
    and st: "\<forall>s \<in> set (stateStack b).
        id_ok (clipID s) \<and> (clipID s = '''' \<or> clipID s \<in> set (defined_ids b))"
    by (simp_all add: ids_inv_def)
  have pfx: "''clip'' \<in> {''clip'', ''lg'', ''rg''}" by simp
  from fit Some have fit': "int (length (String (defs b @ ?Y))) \<le> max_int"
    by (simp add: representable_def SetClip_eq)
  note fr = next_id_fresh [OF inv pfx length_clip_chunks fit']
  have E: "SetClip l path rule b =
     b\<lparr>idCounter := idCounter b + 1, currentClipID := ?i,
       defs := defs b @ clip_chunks l p rule ?i\<rparr>"
    using Some fr(1) by (simp add: SetClip_eq)
  have ok: "id_ok ?i" by (rule id_ok_pfx [OF pfx])
  then have D: "defined_ids (SetClip l path rule b) = defined_ids b @ [?i]"
    by (simp add: E defined_ids_def ids_defined_simps ids_defined_clip_chunks id_ok_def)
  have R: "referenced_ids (SetClip l path rule b) = referenced_ids b"
    by (simp add: E referenced_ids_def)
  have 2: "2 * (idCounter b + 1) \<le> int (length (String (defs (SetClip l path rule b))))"
    using fr(4) fr(1) by (simp add: E)
  have 3: "\<forall>i \<in> set (defined_ids (SetClip l path rule b)).
             int (id_num i) \<le> idCounter b + 1"
    using old fr(3) by (auto simp: D)
  have 4: "distinct (defined_ids (SetClip l path rule b))"
    using dist fr(2) by (simp add: D)
  have 5: "set (referenced_ids (SetClip l path rule b))
             \<subseteq> set (defined_ids (SetClip l path rule b))"
    using refs by (auto simp: R D)
  have 8: "\<forall>s \<in> set (stateStack b).
        id_ok (clipID s) \<and> (clipID s = '''' \<or> clipID s \<in> set (defined_ids (SetClip l path rule b)))"
    using st by (auto simp: D)
  show ?thesis
    unfolding ids_inv_def using c0 2 3 4 5 ok 8 by (simp add: D R) (simp add: E)
qed

lemma ids_inv_NewBackend: "ids_inv (NewBackend l)"
  by (simp add: ids_inv_def NewBackend_def defined_ids_def referenced_ids_def
      ids_defined_simps ids_referenced_simps String_def id_ok_def)

lemma ids_inv_Begin: "ids_inv (Begin l w h b)"
  by (simp add: ids_inv_def Begin_def defined_ids_def referenced_ids_def
      ids_defined_simps ids_referenced_simps String_def id_ok_def)

lemma ids_inv_Save: "ids_inv b \<Longrightarrow> ids_inv (Save b)"
  by (auto simp: ids_inv_def Save_def Let_def builder_WriteString_def defined_ids_def
      referenced_ids_def ids_referenced_simps ref_id_def)

lemma ids_inv_Restore:
  assumes "ids_inv b"
  shows "ids_inv (Restore b)"
proof (cases "stateStack b = []")
  case True
  with assms show ?thesis by (simp add: Restore_def)
next
  case False
  then have l: "last (stateStack b) \<in> set (stateStack b)" by simp
  have bl: "\<And>s. s \<in> set (butlast (stateStack b)) \<Longrightarrow> s \<in> set (stateStack b)"
    by (rule in_set_butlastD)
  from assms l bl False show ?thesis
    by (auto simp: ids_inv_def Restore_def Let_def builder_WriteString_def defined_ids_def
        referenced_ids_def ids_referenced_simps ref_id_def)
qed

lemma ids_inv_SetTransform: "ids_inv b \<Longrightarrow> ids_inv (SetTransform m b)"
  by (simp add: ids_inv_def SetTransform_def defined_ids_def referenced_ids_def)

lemma ids_inv_ClearClip: "ids_inv b \<Longrightarrow> ids_inv (ClearClip b)"
  by (simp add: ids_inv_def ClearClip_def defined_ids_def referenced_ids_def id_ok_def)

lemma ids_inv_currentClipID: "ids_inv b \<Longrightarrow> id_ok (currentClipID b)"
  by (simp add: ids_inv_def)

lemma ids_inv_exec:
  assumes "ids_inv b" and "representable (exec l c b)"
  shows "ids_inv (exec l c b)"
proof (cases c)
  case (CBegin w h)
  then show ?thesis by (simp add: ids_inv_Begin)
next
  case CEnd
  with assms show ?thesis by (simp add: End_def)
next
  case CSave
  with assms show ?thesis by (simp add: ids_inv_Save)
next
  case CRestore
  with assms show ?thesis by (simp add: ids_inv_Restore)
next
  case (CSetTransform m)
  with assms show ?thesis by (simp add: ids_inv_SetTransform)
next
  case (CSetClip path rule)
  with assms show ?thesis by (simp add: ids_inv_SetClip)
next
  case CClearClip
  with assms show ?thesis by (simp add: ids_inv_ClearClip)
next
  case (CFillPath path brush rule)
  with assms show ?thesis
    using ids_inv_paints [OF assms(1) paints_FillPath [OF ids_inv_currentClipID [OF assms(1)]]]
    by simp
next
  case (CStrokePath path brush stroke)
  with assms show ?thesis
    using ids_inv_paints [OF assms(1) paints_StrokePath [OF ids_inv_currentClipID [OF assms(1)]]]
    by simp
next
  case (CFillRect rect brush)
  with assms show ?thesis
    using ids_inv_paints [OF assms(1) paints_FillRect [OF ids_inv_currentClipID [OF assms(1)]]]
    by simp
next
  case (CDrawImage img src dst opts)
  with assms show ?thesis
    using ids_inv_paints [OF assms(1) paints_DrawImage [OF ids_inv_currentClipID [OF assms(1)]]]
    by simp
next
  case (CDrawText s x y face brush)
  with assms show ?thesis
    using ids_inv_paints [OF assms(1) paints_DrawText [OF ids_inv_currentClipID [OF assms(1)]]]
    by simp
qed

lemma depth_exec:
  assumes d: "groupDepth b = int (length (stateStack b))" and i: "ids_inv b"
    and fit: "representable (exec l c b)"
  shows "groupDepth (exec l c b) = int (length (stateStack (exec l c b)))"
proof -
  note ok = ids_inv_currentClipID [OF i]
  show ?thesis
  proof (cases c)
    case (CBegin w h)
    then show ?thesis by (simp add: Begin_def)
  next
    case CEnd
    with d show ?thesis by (simp add: End_def)
  next
    case CSave
    with fit have "int (length (stateStack b)) + 1 \<le> max_int"
      by (simp add: representable_def Save_def Let_def builder_WriteString_def)
    with d have "wrap_int (groupDepth b + 1) = groupDepth b + 1"
      by (intro wrap_int_id) simp_all
    with d CSave show ?thesis
      by (simp add: Save_def Let_def builder_WriteString_def)
  next
    case CRestore
    show ?thesis
    proof (cases "stateStack b = []")
      case True
      with d CRestore show ?thesis by (simp add: Restore_def)
    next
      case False
      then have pos: "0 < groupDepth b" using d by simp
      have sb: "stateStack (Restore b) = butlast (stateStack b)"
        using False by (simp add: Restore_def Let_def builder_WriteString_def)
      have bl: "int (length (butlast (stateStack b))) = int (length (stateStack b)) - 1"
        using False by (cases "stateStack b") simp_all
      with fit CRestore have "int (length (stateStack b)) - 1 \<le> max_int"
        by (simp add: representable_def sb)
      with d pos have "wrap_int (groupDepth b - 1) = groupDepth b - 1"
        by (intro wrap_int_id) simp_all
      moreover have "groupDepth (Restore b) = wrap_int (groupDepth b - 1)"
        using pos False by (simp add: Restore_def Let_def builder_WriteString_def)
      ultimately show ?thesis
        using d bl CRestore by (simp add: sb)
    qed
  next
    case (CSetTransform m)
    with d show ?thesis by (simp add: SetTransform_def)
  next
    case (CSetClip path rule)
    show ?thesis
    proof (cases path)
      case None
      with d CSetClip show ?thesis by (simp add: SetClip_def)
    next
      case (Some p)
      with d CSetClip show ?thesis by (simp add: SetClip_eq)
    qed
  next
    case CClearClip
    with d show ?thesis by (simp add: ClearClip_def)
  next
    case (CFillPath path brush rule)
    with d paints_fields(1,2) [OF paints_FillPath [OF ok, of l path brush rule]] show ?thesis by simp
  next
    case (CStrokePath path brush stroke)
    with d paints_fields(1,2) [OF paints_StrokePath [OF ok, of l path brush stroke]] show ?thesis by simp
  next
    case (CFillRect rect brush)
    with d paints_fields(1,2) [OF paints_FillRect [OF ok, of l rect brush]] show ?thesis by simp
  next
    case (CDrawImage img src dst opts)
    with d paints_fields(1,2) [OF paints_DrawImage [OF ok, of l img src dst opts]] show ?thesis by simp
  next
    case (CDrawText s x y face brush)
    with d paints_fields(1,2) [OF paints_DrawText [OF ok, of l s x y face brush]] show ?thesis by simp
  qed
qed

lemma reachable_inv:
  "reachable l b \<Longrightarrow> groupDepth b = int (length (stateStack b)) \<and> ids_inv b"
proof (induction rule: reachable.induct)
  case reachable_new
  show ?case by (simp add: ids_inv_NewBackend) (simp add: NewBackend_def)
next
  case (reachable_exec b c)
  then show ?case by (simp add: depth_exec ids_inv_exec)
qed

subsection \<open>Group depth\<close>

lemma reachable_example_nesting: "reachable int_lib example_nesting"
  unfolding example_nesting_def by (intro reachable_exec reachable_new; code_simp)

text \<open>
  C4. \<open>groupDepth\<close> equals the length of the state stack after \<^verbatim>\<open>Begin\<close>,
  whatever the state before, and in every state a client can reach from a
  new backend by any commands (\<^verbatim>\<open>Begin\<close>, \<^verbatim>\<open>End\<close>, \<^verbatim>\<open>Save\<close>, \<^verbatim>\<open>Restore\<close>,
  \<^verbatim>\<open>SetTransform\<close>, \<^verbatim>\<open>SetClip\<close>, \<^verbatim>\<open>ClearClip\<close> and the five drawing calls).
\<close>

theorem group_depth_invariant:
  "groupDepth (Begin l w h b0) = int (length (stateStack (Begin l w h b0))) \<and>
   (reachable l b \<longrightarrow> groupDepth b = int (length (stateStack b)))"
  using reachable_inv [of l b] by (simp add: Begin_def)

theorem group_depth_invariant_witness:
  "reachable int_lib example_nesting \<and>
   groupDepth example_nesting = int (length (stateStack example_nesting)) \<and>
   groupDepth example_nesting = 1"
proof -
  have v: "groupDepth example_nesting = 1" by code_simp
  from reachable_example_nesting v show ?thesis
    using group_depth_invariant
      [where l = int_lib and b = example_nesting, THEN conjunct2, THEN mp,
        OF reachable_example_nesting]
    by (intro conjI)
qed

subsection \<open>Spread of a linear gradient\<close>

lemma linearGradient_chunks_new:
  "drop (length (defs b)) (defs (snd (addLinearGradient l br b)))
     = linearGradient_chunks l br (fst (addLinearGradient l br b))"
  by (simp add: addLinearGradient_eq)

lemma defs_example_spread:
  \<open>String (defs example_spread) =
     ''<linearGradient id="lg1" gradientUnits="userSpaceOnUse" x1="0" y1="0" x2="3" y2="4"> spreadMethod="repeat"<stop offset="0" stop-color="rgb(255,0,0)"/><stop offset="1" stop-color="rgb(0,255,0)"/></linearGradient>''\<close>
  by code_simp

text \<open>
  C8. \<^verbatim>\<open>addLinearGradient\<close> writes the start tag of the \<^verbatim>\<open>linearGradient\<close>
  element complete, with the \<^verbatim>\<open>>\<close> that ends it, in its first chunk, and only
  then, for a repeating or reflecting brush whose computed length is greater
  than zero, the text \<^verbatim>\<open> spreadMethod="repeat"\<close> or \<^verbatim>\<open> spreadMethod="reflect"\<close>,
  followed by the stops and the end tag. The spread text is therefore
  character data inside the element and not an attribute of it: no spread
  attribute is written for any gradient. For the repeating gradient from
  (0,0) to (3,4) passed to \<^verbatim>\<open>FillRect\<close> after \<^verbatim>\<open>Begin\<close>, the definitions read
  \<^verbatim>\<open><linearGradient ... y2="4"> spreadMethod="repeat"<stop ...\<close>, and the start
  tag of the element ends at \<^verbatim>\<open>y2="4"\<close>.
\<close>

theorem linear_spread_outside_start_tag:
  \<open>drop (length (defs b)) (defs (snd (addLinearGradient l br b))) =
     (''<linearGradient id="'' @ fst (addLinearGradient l br b)
        @ ''" gradientUnits="userSpaceOnUse" x1="'' @ fmt_g l (pX (lgStart br))
        @ ''" y1="'' @ fmt_g l (pY (lgStart br))
        @ ''" x2="'' @ fmt_g l (pX (lgEnd br))
        @ ''" y2="'' @ fmt_g l (pY (lgEnd br)) @ ''">'')
     # (if f_lt l (f_lit l 0) (gradient_length l br)
        then (case lgExtend br of
                ExtendRepeat \<Rightarrow> ['' spreadMethod="repeat"'']
              | ExtendReflect \<Rightarrow> ['' spreadMethod="reflect"'']
              | ExtendPad \<Rightarrow> [])
        else [])
     @ stop_chunks l (lgStops br) @ [''</linearGradient>''] \<and>
   String (defs example_spread) =
     ''<linearGradient id="lg1" gradientUnits="userSpaceOnUse" x1="0" y1="0" x2="3" y2="4"> spreadMethod="repeat"<stop offset="0" stop-color="rgb(255,0,0)"/><stop offset="1" stop-color="rgb(0,255,0)"/></linearGradient>'' \<and>
   start_tag (String (defs example_spread)) =
     ''<linearGradient id="lg1" gradientUnits="userSpaceOnUse" x1="0" y1="0" x2="3" y2="4"'' \<and>
   \<not> has_attribute ''spreadMethod'' (String (defs example_spread))\<close>
proof (intro conjI)
  show \<open>drop (length (defs b)) (defs (snd (addLinearGradient l br b))) =
     (''<linearGradient id="'' @ fst (addLinearGradient l br b)
        @ ''" gradientUnits="userSpaceOnUse" x1="'' @ fmt_g l (pX (lgStart br))
        @ ''" y1="'' @ fmt_g l (pY (lgStart br))
        @ ''" x2="'' @ fmt_g l (pX (lgEnd br))
        @ ''" y2="'' @ fmt_g l (pY (lgEnd br)) @ ''">'')
     # (if f_lt l (f_lit l 0) (gradient_length l br)
        then (case lgExtend br of
                ExtendRepeat \<Rightarrow> ['' spreadMethod="repeat"'']
              | ExtendReflect \<Rightarrow> ['' spreadMethod="reflect"'']
              | ExtendPad \<Rightarrow> [])
        else [])
     @ stop_chunks l (lgStops br) @ [''</linearGradient>'']\<close>
    unfolding linearGradient_chunks_new
    by (simp add: linearGradient_chunks_def spread_chunks_def)
  show \<open>String (defs example_spread) =
     ''<linearGradient id="lg1" gradientUnits="userSpaceOnUse" x1="0" y1="0" x2="3" y2="4"> spreadMethod="repeat"<stop offset="0" stop-color="rgb(255,0,0)"/><stop offset="1" stop-color="rgb(0,255,0)"/></linearGradient>''\<close>
    by (rule defs_example_spread)
  show \<open>start_tag (String (defs example_spread)) =
     ''<linearGradient id="lg1" gradientUnits="userSpaceOnUse" x1="0" y1="0" x2="3" y2="4"''\<close>
    unfolding defs_example_spread by code_simp
  show \<open>\<not> has_attribute ''spreadMethod'' (String (defs example_spread))\<close>
    unfolding defs_example_spread by code_simp
qed

subsection \<open>Integrity of the references\<close>

lemma count_list_distinct: "distinct xs \<Longrightarrow> x \<in> set xs \<Longrightarrow> count_list xs x = 1"
  by (induction xs) auto

lemma reachable_example_drawing: "reachable int_lib example_drawing"
  unfolding example_drawing_def by (intro reachable_exec reachable_new; code_simp)

text \<open>
  C9. In every reachable state the ids of the definitions in the definitions
  buffer are pairwise different, every id referenced by a \<^verbatim>\<open>url(#id)\<close>
  attribute in the content buffer has exactly one definition, and the next
  call of \<^verbatim>\<open>nextID\<close> advances the counter by exactly one and returns an id
  that no definition carries.
\<close>

theorem reference_integrity:
  "reachable l b \<Longrightarrow>
   distinct (defined_ids b) \<and>
   (\<forall>i \<in> set (referenced_ids b). count_list (defined_ids b) i = 1) \<and>
   (\<forall>pfx \<in> {''clip'', ''lg'', ''rg''}.
      idCounter (snd (nextID pfx b)) = idCounter b + 1 \<and>
      fst (nextID pfx b) = pfx @ fmt_d (idCounter b + 1) \<and>
      fst (nextID pfx b) \<notin> set (defined_ids b))"
proof -
  assume r: "reachable l b"
  then have inv: "ids_inv b" using reachable_inv by blast
  from r have fit: "representable b" by (rule reachable_representable)
  from inv have dist: "distinct (defined_ids b)"
    and refs: "set (referenced_ids b) \<subseteq> set (defined_ids b)"
    and c0: "0 \<le> idCounter b" and c2: "2 * idCounter b \<le> int (length (String (defs b)))"
    and old: "\<forall>i \<in> set (defined_ids b). int (id_num i) \<le> idCounter b"
    by (simp_all add: ids_inv_def)
  have 2: "\<forall>i \<in> set (referenced_ids b). count_list (defined_ids b) i = 1"
  proof
    fix i assume "i \<in> set (referenced_ids b)"
    with refs have "i \<in> set (defined_ids b)" by (rule subsetD)
    with dist show "count_list (defined_ids b) i = 1" by (rule count_list_distinct)
  qed
  from fit c2 have "idCounter b + 1 \<le> max_int"
    by (simp add: representable_def max_int_def)
  with c0 have w: "wrap_int (idCounter b + 1) = idCounter b + 1"
    by (intro wrap_int_id) simp_all
  have 3: "\<forall>pfx \<in> {''clip'', ''lg'', ''rg''}.
      idCounter (snd (nextID pfx b)) = idCounter b + 1 \<and>
      fst (nextID pfx b) = pfx @ fmt_d (idCounter b + 1) \<and>
      fst (nextID pfx b) \<notin> set (defined_ids b)"
  proof
    fix pfx :: string
    assume pfx: "pfx \<in> {''clip'', ''lg'', ''rg''}"
    from c0 have n: "int (id_num (pfx @ fmt_d (idCounter b + 1))) = idCounter b + 1"
      by (simp add: id_num_pfx [OF pfx])
    have "pfx @ fmt_d (idCounter b + 1) \<notin> set (defined_ids b)"
    proof
      assume "pfx @ fmt_d (idCounter b + 1) \<in> set (defined_ids b)"
      with old have "int (id_num (pfx @ fmt_d (idCounter b + 1))) \<le> idCounter b" by blast
      with n show False by simp
    qed
    then show "idCounter (snd (nextID pfx b)) = idCounter b + 1 \<and>
      fst (nextID pfx b) = pfx @ fmt_d (idCounter b + 1) \<and>
      fst (nextID pfx b) \<notin> set (defined_ids b)"
      by (simp add: nextID_eq w)
  qed
  from dist 2 3 show ?thesis by (intro conjI)
qed

theorem reference_integrity_witness:
  "reachable int_lib example_drawing \<and>
   defined_ids example_drawing = [''clip1'', ''lg2''] \<and>
   referenced_ids example_drawing = [''clip1'', ''lg2''] \<and>
   distinct (defined_ids example_drawing) \<and>
   count_list (defined_ids example_drawing) ''lg2'' = 1 \<and>
   fst (nextID ''rg'' example_drawing) = ''rg3''"
proof -
  note t = reference_integrity [OF reachable_example_drawing]
  have d: "defined_ids example_drawing = [''clip1'', ''lg2'']" by code_simp
  have r: "referenced_ids example_drawing = [''clip1'', ''lg2'']" by code_simp
  have i: "''lg2'' \<in> set (referenced_ids example_drawing)" by (simp add: r)
  have c: "count_list (defined_ids example_drawing) ''lg2'' = 1"
    using t [THEN conjunct2, THEN conjunct1] i by (rule bspec)
  have n: "fst (nextID ''rg'' example_drawing) = ''rg3''" by code_simp
  from reachable_example_drawing d r t [THEN conjunct1] c n show ?thesis
    by (intro conjI)
qed

subsection \<open>Colours\<close>

lemma toward_zero_between:
  "of_int n \<le> q \<Longrightarrow> q < of_int n + 1 \<Longrightarrow> 0 \<le> n \<Longrightarrow> toward_zero q = n"
  "of_int n - 1 < q \<Longrightarrow> q \<le> of_int n \<Longrightarrow> q < 0 \<Longrightarrow> toward_zero q = n"
proof -
  assume "of_int n \<le> q" "q < of_int n + 1" "0 \<le> n"
  then have "\<lfloor>q\<rfloor> = n" and "0 \<le> q" by (simp_all add: floor_unique)
  then show "toward_zero q = n" by (simp add: toward_zero_def)
next
  assume "of_int n - 1 < q" "q \<le> of_int n" "q < 0"
  then have "\<lceil>q\<rceil> = n" by (simp add: ceiling_unique)
  with \<open>q < 0\<close> show "toward_zero q = n" by (simp add: toward_zero_def)
qed

lemma channel_model:
  assumes m: "float_model l val x"
  shows "channel l x = fmt_d (toward_zero (val (f_mul l x (f_lit l 255))))"
    and "\<bar>val x - 999 / 1000\<bar> \<le> (999 / 1000) / 2 ^ 53 \<Longrightarrow> channel l x = ''254''"
    and "val x = 5 / 2 \<Longrightarrow> channel l x = ''637''"
    and "val x = - 1 / 2 \<Longrightarrow> channel l x = ''-127''"
proof -
  let ?v = "val (f_mul l x (f_lit l 255))"
  from m have rnd: "\<bar>?v - val x * 255\<bar> \<le> \<bar>val x * 255\<bar> / 2 ^ 53"
    and conv: "f_int l (f_mul l x (f_lit l 255)) = toward_zero ?v"
    by (simp_all add: float_model_def)
  show c: "channel l x = fmt_d (toward_zero ?v)"
    by (simp add: channel_def conv)
  {
    assume a: "\<bar>val x - 999 / 1000\<bar> \<le> (999 / 1000) / 2 ^ 53"
    then have lo: "999 / 1000 - (999 / 1000) / 2 ^ 53 \<le> val x"
      and hi: "val x \<le> 999 / 1000 + (999 / 1000) / 2 ^ 53"
      by linarith+
    from lo have p: "0 < val x * 255" by simp
    with rnd have "\<bar>?v - val x * 255\<bar> \<le> (val x * 255) / 2 ^ 53" by simp
    then have vlo: "val x * 255 - (val x * 255) / 2 ^ 53 \<le> ?v"
      and vhi: "?v \<le> val x * 255 + (val x * 255) / 2 ^ 53"
      by linarith+
    from lo hi vlo vhi have "of_int 254 \<le> ?v" and "?v < of_int 254 + 1" by simp_all
    then have "toward_zero ?v = 254" by (rule toward_zero_between(1)) simp
    then show "channel l x = ''254''"
      by (simp add: c fmt_d_def dec_nat.simps digit_char_def)
  }
  {
    assume a: "val x = 5 / 2"
    with rnd have "\<bar>?v - 1275 / 2\<bar> \<le> (1275 / 2) / 2 ^ 53" by simp
    then have "1275 / 2 - (1275 / 2) / 2 ^ 53 \<le> ?v" and "?v \<le> 1275 / 2 + (1275 / 2) / 2 ^ 53"
      by linarith+
    then have "of_int 637 \<le> ?v" and "?v < of_int 637 + 1" by simp_all
    then have "toward_zero ?v = 637" by (rule toward_zero_between(1)) simp
    then show "channel l x = ''637''"
      by (simp add: c fmt_d_def dec_nat.simps digit_char_def)
  }
  {
    assume a: "val x = - 1 / 2"
    with rnd have "\<bar>?v + 255 / 2\<bar> \<le> (255 / 2) / 2 ^ 53" by simp
    then have "- (255 / 2) - (255 / 2) / 2 ^ 53 \<le> ?v" and "?v \<le> - (255 / 2) + (255 / 2) / 2 ^ 53"
      by linarith+
    then have "of_int (- 127) - 1 < ?v" and "?v \<le> of_int (- 127)" and "?v < 0"
      by simp_all
    then have "toward_zero ?v = - 127" by (rule toward_zero_between(2))
    then show "channel l x = ''-127''"
      by (simp add: c fmt_d_def dec_nat.simps digit_char_def)
  }
qed

text \<open>
  C10. \<^verbatim>\<open>colorToCSS\<close> prints, for each of the three colour channels, the
  conversion \<^verbatim>\<open>int(x * 255)\<close> as it is, with no rounding and no clamping in
  between, and does not read the alpha channel. With the product rounded to
  nearest and the conversion discarding the fraction, a channel within
  rounding of 0.999 is printed as 254, the channel 2.5 as 637 and the
  channel -0.5 as -127.
\<close>

theorem colorToCSS_truncates:
  "colorToCSS l c
     = ''rgb('' @ channel l (cR c) @ '','' @ channel l (cG c) @ '','' @ channel l (cB c) @ '')'' \<and>
   colorToCSS l (c\<lparr>cA := a\<rparr>) = colorToCSS l c \<and>
   (float_model l val x \<longrightarrow>
      channel l x = fmt_d (toward_zero (val (f_mul l x (f_lit l 255)))) \<and>
      (\<bar>val x - 999 / 1000\<bar> \<le> (999 / 1000) / 2 ^ 53 \<longrightarrow> channel l x = ''254'') \<and>
      (val x = 5 / 2 \<longrightarrow> channel l x = ''637'') \<and>
      (val x = - 1 / 2 \<longrightarrow> channel l x = ''-127''))"
proof (intro conjI impI)
  show "colorToCSS l c
     = ''rgb('' @ channel l (cR c) @ '','' @ channel l (cG c) @ '','' @ channel l (cB c) @ '')''"
    by (simp add: colorToCSS_def channel_def Let_def)
  show "colorToCSS l (c\<lparr>cA := a\<rparr>) = colorToCSS l c"
    by (simp add: colorToCSS_def)
qed (rule channel_model; assumption)+

theorem colorToCSS_truncates_witness:
  "float_model rat_lib (\<lambda>q. q) (999 / 1000) \<and>
   channel rat_lib (999 / 1000) = ''254'' \<and>
   channel rat_lib (5 / 2) = ''637'' \<and>
   channel rat_lib (- 1 / 2) = ''-127'' \<and>
   colorToCSS rat_lib \<lparr>cR = 999 / 1000, cG = 5 / 2, cB = - 1 / 2, cA = 1 / 2\<rparr>
     = ''rgb(254,637,-127)''"
proof -
  have m: "float_model rat_lib (\<lambda>q. q) x" for x
    by (simp add: float_model_def rat_lib_def)
  note t = colorToCSS_truncates [where l = rat_lib and val = "\<lambda>q. q"]
  have a: "\<bar>(999 / 1000 :: rat) - 999 / 1000\<bar> \<le> (999 / 1000) / 2 ^ 53"
    by simp
  have 1: "channel rat_lib (999 / 1000) = ''254''"
    by (rule t [where x = "999 / 1000", THEN conjunct2, THEN conjunct2, THEN mp, OF m,
          THEN conjunct2, THEN conjunct1, THEN mp, OF a])
  have 2: "channel rat_lib (5 / 2) = ''637''"
    by (rule t [where x = "5 / 2", THEN conjunct2, THEN conjunct2, THEN mp, OF m,
          THEN conjunct2, THEN conjunct2, THEN conjunct1, THEN mp, OF refl])
  have 3: "channel rat_lib (- 1 / 2) = ''-127''"
    by (rule t [where x = "- 1 / 2", THEN conjunct2, THEN conjunct2, THEN mp, OF m,
          THEN conjunct2, THEN conjunct2, THEN conjunct2, THEN mp, OF refl])
  have 4: "colorToCSS rat_lib \<lparr>cR = 999 / 1000, cG = 5 / 2, cB = - 1 / 2, cA = 1 / 2\<rparr>
     = ''rgb(254,637,-127)''"
    using t [where c = "\<lparr>cR = 999 / 1000, cG = 5 / 2, cB = - 1 / 2, cA = 1 / 2\<rparr>", THEN conjunct1]
      1 2 3
    by simp
  from m 1 2 3 4 show ?thesis by (intro conjI)
qed

subsection \<open>Nesting of the groups\<close>

lemma nesting_append:
  "nesting (xs @ ys) d = (case nesting xs d of None \<Rightarrow> None | Some d' \<Rightarrow> nesting ys d')"
  by (induction xs arbitrary: d) (simp_all split: nat.splits)

lemma nesting_neutral: "neutral X \<Longrightarrow> nesting X d = Some d"
  by (induction X) (auto simp: neutral_def)

lemma nesting_close: "nesting (replicate n ''</g>'') n = Some 0"
  by (induction n) simp_all

lemma paints_builder:
  assumes "paints b b'"
  shows "\<exists>X. builder b' = builder b @ X \<and> neutral X"
proof -
  from assms obtain X Y where "appends b b' X Y" and "neutral X"
    unfolding paints_def by blast
  then show ?thesis
    using appends_fields(1) by blast
qed

lemma nesting_paints:
  assumes "paints b b'" and "nesting (builder b) 0 = Some (nat (groupDepth b))"
  shows "nesting (builder b') 0 = Some (nat (groupDepth b'))"
proof -
  from paints_builder [OF assms(1)] obtain X where "builder b' = builder b @ X" and "neutral X"
    by blast
  then show ?thesis
    using assms(2) paints_fields(1) [OF assms(1)]
    by (simp add: nesting_append nesting_neutral)
qed

lemma nesting_exec:
  assumes d: "groupDepth b = int (length (stateStack b))" and i: "ids_inv b"
    and n: "nesting (builder b) 0 = Some (nat (groupDepth b))"
    and fit: "representable (exec l c b)"
  shows "nesting (builder (exec l c b)) 0 = Some (nat (groupDepth (exec l c b)))"
proof -
  note ok = ids_inv_currentClipID [OF i]
  note d' = depth_exec [OF d i fit]
  show ?thesis
  proof (cases c)
    case (CBegin w h)
    then show ?thesis by (simp add: Begin_def)
  next
    case CEnd
    with n show ?thesis by (simp add: End_def)
  next
    case CSave
    have "groupDepth (Save b) = int (length (stateStack b)) + 1"
      using d' CSave by (simp add: Save_def Let_def builder_WriteString_def)
    with n d CSave show ?thesis
      by (simp add: Save_def Let_def builder_WriteString_def nesting_append nat_add_distrib)
  next
    case CRestore
    show ?thesis
    proof (cases "stateStack b = []")
      case True
      with n CRestore show ?thesis by (simp add: Restore_def)
    next
      case False
      then have pos: "0 < groupDepth b" using d by simp
      have sb: "stateStack (Restore b) = butlast (stateStack b)"
        using False by (simp add: Restore_def Let_def builder_WriteString_def)
      have bb: "builder (Restore b) = builder b @ [''</g>'']"
        using False pos by (simp add: Restore_def Let_def builder_WriteString_def)
      have "groupDepth (Restore b) = int (length (butlast (stateStack b)))"
        using d' CRestore by (simp add: sb)
      then have g: "nat (groupDepth (Restore b)) = length (stateStack b) - 1"
        by simp
      from False obtain k where k: "length (stateStack b) = Suc k"
        by (cases "stateStack b") simp_all
      have "nat (groupDepth b) = Suc k" using d k by simp
      with n have "nesting (builder b) 0 = Some (Suc k)" by simp
      then have "nesting (builder (Restore b)) 0 = Some k"
        by (simp add: bb nesting_append)
      with g k CRestore show ?thesis by simp
    qed
  next
    case (CSetTransform m)
    with n show ?thesis by (simp add: SetTransform_def)
  next
    case (CSetClip path rule)
    show ?thesis
    proof (cases path)
      case None
      with n CSetClip show ?thesis by (simp add: SetClip_def)
    next
      case (Some p)
      with n CSetClip show ?thesis by (simp add: SetClip_eq)
    qed
  next
    case CClearClip
    with n show ?thesis by (simp add: ClearClip_def)
  next
    case (CFillPath path brush rule)
    with nesting_paints [OF paints_FillPath [OF ok, of l path brush rule] n] show ?thesis by simp
  next
    case (CStrokePath path brush stroke)
    with nesting_paints [OF paints_StrokePath [OF ok, of l path brush stroke] n] show ?thesis
      by simp
  next
    case (CFillRect rect brush)
    with nesting_paints [OF paints_FillRect [OF ok, of l rect brush] n] show ?thesis by simp
  next
    case (CDrawImage img src dst opts)
    with nesting_paints [OF paints_DrawImage [OF ok, of l img src dst opts] n] show ?thesis
      by simp
  next
    case (CDrawText s x y face brush)
    with nesting_paints [OF paints_DrawText [OF ok, of l s x y face brush] n] show ?thesis
      by simp
  qed
qed

lemma reachable_nesting:
  "reachable l b \<Longrightarrow> nesting (builder b) 0 = Some (nat (groupDepth b))"
proof (induction rule: reachable.induct)
  case reachable_new
  show ?case by (simp add: NewBackend_def)
next
  case (reachable_exec b c)
  from reachable_inv [OF reachable_exec.hyps(1)]
  have "groupDepth b = int (length (stateStack b))" and "ids_inv b" by simp_all
  then show ?case
    using reachable_exec.IH reachable_exec.hyps(2) by (rule nesting_exec)
qed

text \<open>
  C5. Written to a sink that accepts every write (a \<^verbatim>\<open>bytes.Buffer\<close>),
  \<^verbatim>\<open>WriteTo\<close> appends, in this order: the XML declaration and the opening
  \<^verbatim>\<open>svg\<close> element with width, height and the view box \<open>0 0 width height\<close>;
  the definitions buffer wrapped in \<^verbatim>\<open>defs\<close>, only if it is not empty; the
  content buffer as it is; one \<^verbatim>\<open></g>\<close> for each unit of \<open>groupDepth\<close>; the
  closing \<^verbatim>\<open>svg\<close> element. No error is returned. In a reachable state the
  content followed by these closing markers closes every group it opens, and
  closes none that is not open.
\<close>

theorem WriteTo_document:
  \<open>fst (WriteTo buffer_Write b w) =
     w @ ''<?xml version="1.0" encoding="UTF-8"?>\<newline><svg xmlns="http://www.w3.org/2000/svg" xmlns:xlink="http://www.w3.org/1999/xlink" width="''
       @ fmt_d (width b) @ ''" height="'' @ fmt_d (height b)
       @ ''" viewBox="0 0 '' @ fmt_d (width b) @ '' '' @ fmt_d (height b) @ ''">\<newline>''
       @ (if String (defs b) \<noteq> '''' then ''<defs>'' @ String (defs b) @ ''</defs>\<newline>'' else '''')
       @ String (builder b)
       @ String (replicate (nat (groupDepth b)) ''</g>'')
       @ ''\<newline></svg>\<newline>'' \<and>
   snd (snd (WriteTo buffer_Write b w)) = None \<and>
   (reachable l b \<longrightarrow>
      nesting (builder b @ replicate (nat (groupDepth b)) ''</g>'') 0 = Some 0)\<close>
proof (intro conjI impI)
  assume "reachable l b"
  then have "nesting (builder b) 0 = Some (nat (groupDepth b))"
    by (rule reachable_nesting)
  then show "nesting (builder b @ replicate (nat (groupDepth b)) ''</g>'') 0 = Some 0"
    by (simp add: nesting_append nesting_close)
qed (simp_all add: WriteTo_def write_chunk_buffer close_groups_buffer header_def buffer_Write_def
      Let_def String_def)

theorem WriteTo_document_witness:
  \<open>reachable int_lib example_nesting \<and>
   nesting (builder example_nesting @ replicate (nat (groupDepth example_nesting)) ''</g>'') 0
     = Some 0 \<and>
   fst (WriteTo buffer_Write example_nesting '''') =
     ''<?xml version="1.0" encoding="UTF-8"?>\<newline><svg xmlns="http://www.w3.org/2000/svg" xmlns:xlink="http://www.w3.org/1999/xlink" width="800" height="600" viewBox="0 0 800 600">\<newline><g><g></g></g>\<newline></svg>\<newline>''\<close>
proof -
  note t = WriteTo_document [where b = example_nesting and l = int_lib and w = "''''"]
  have 1: "nesting (builder example_nesting @ replicate (nat (groupDepth example_nesting)) ''</g>'') 0
     = Some 0"
    by (rule t [THEN conjunct2, THEN conjunct2, THEN mp, OF reachable_example_nesting])
  have 2: \<open>fst (WriteTo buffer_Write example_nesting '''') =
     ''<?xml version="1.0" encoding="UTF-8"?>\<newline><svg xmlns="http://www.w3.org/2000/svg" xmlns:xlink="http://www.w3.org/1999/xlink" width="800" height="600" viewBox="0 0 800 600">\<newline><g><g></g></g>\<newline></svg>\<newline>''\<close>
    by code_simp
  from reachable_example_nesting 1 2 show ?thesis by (intro conjI)
qed

end
